theory Spec2Isabelle
  imports Complex_Main
begin

section \<open>Parking management: data model (parking\_models.py)\<close>

text \<open>
  The three enumerations of the module. \<open>CustomerType\<close> and \<open>Section\<close> share the member
  names \<open>REGULAR\<close> and \<open>VIP\<close>, as in the source; they are always written qualified.
\<close>

datatype VehicleType = SMALL | MEDIUM | LARGE

datatype CustomerType = REGULAR | VIP

datatype Section = REGULAR | VIP | EV

fun VehicleType_value :: "VehicleType \<Rightarrow> string" where
  "VehicleType_value SMALL = ''Small''"
| "VehicleType_value MEDIUM = ''Medium''"
| "VehicleType_value LARGE = ''Large''"

text \<open>
  Exceptions the methods can raise on objects that break the class invariants
  (an occupied slot without a vehicle, a session without an entry time).
\<close>

datatype py_error = AttributeError | TypeError

text \<open>
  A \<open>datetime\<close> is a count of microseconds (the resolution of Python's datetime) from a
  fixed midnight; a \<open>timedelta\<close> is a signed count of microseconds. The float that
  \<open>total_seconds() / 3600\<close> yields is modelled by the exact rational, and so is every
  float of the fee computation. Where the exact fee lies halfway between two hundredths,
  Python rounds the binary float next to it and can differ from the model by 0.01; the
  fees computed below (0, 25, 275, 1050) are exact in binary. Each operation reads the
  clock once: the parameter \<open>now\<close> stands for every \<open>datetime.now()\<close> of one call.
\<close>

type_synonym datetime = int
type_synonym timedelta = int

definition timedelta_hours :: "int \<Rightarrow> timedelta" where
  "timedelta_hours h = h * 3600000000"

definition timedelta_days :: "int \<Rightarrow> timedelta" where
  "timedelta_days d = d * 86400000000"

definition total_seconds :: "timedelta \<Rightarrow> rat" where
  "total_seconds d = of_int d / 1000000"

text \<open>\<open>round(x, 2)\<close>: the nearest multiple of 1/100, a tie going to the even one.\<close>

definition py_round2 :: "rat \<Rightarrow> rat" where
  "py_round2 x =
     (let y = x * 100; f = \<lfloor>y\<rfloor>; d = y - of_int f
      in of_int (if d < 1 / 2 then f
                 else if 1 / 2 < d then f + 1
                 else if even f then f else f + 1) / 100)"

subsection \<open>ParkingRules\<close>

fun TIME_LIMITS :: "CustomerType \<Rightarrow> int" where
  "TIME_LIMITS CustomerType.REGULAR = 24"
| "TIME_LIMITS CustomerType.VIP = 720"

fun DAILY_RATES :: "VehicleType \<Rightarrow> rat" where
  "DAILY_RATES SMALL = 50"
| "DAILY_RATES MEDIUM = 100"
| "DAILY_RATES LARGE = 150"

fun MONTHLY_MEMBERSHIP_RATES :: "VehicleType \<Rightarrow> rat" where
  "MONTHLY_MEMBERSHIP_RATES SMALL = py_round2 (50 * 30 * (7 / 10))"
| "MONTHLY_MEMBERSHIP_RATES MEDIUM = py_round2 (100 * 30 * (7 / 10))"
| "MONTHLY_MEMBERSHIP_RATES LARGE = py_round2 (150 * 30 * (7 / 10))"

definition max_re_entries :: int where "max_re_entries = 3"
definition re_entry_window :: rat where "re_entry_window = 24"
definition re_entry_fee :: rat where "re_entry_fee = 20"
definition max_overstay_penalty :: rat where "max_overstay_penalty = 500"
definition penalty_per_hour :: rat where "penalty_per_hour = 25"
definition commercial_vehicle_restrictions :: bool where
  "commercial_vehicle_restrictions = True"
definition peak_hours :: "(string \<times> string) list" where
  "peak_hours = [(''09:00'', ''11:00''), (''17:00'', ''19:00'')]"

subsection \<open>Vehicle\<close>

record Vehicle =
  vehicle_type :: VehicleType
  customer_type :: CustomerType
  license_plate :: string
  ticket_id :: string
  allocation_time :: "datetime option"
  re_entry_count :: int
  last_re_entry :: "datetime option"
  total_overstay_penalty :: rat
  warnings_issued :: int
  is_suspended :: bool
  suspension_reason :: string
  parking_sessions :: "(datetime \<times> datetime \<times> string) list"
  total_parking_time :: rat
  total_fees_paid :: rat
  accessible_parking :: bool
  ev_charging :: bool
  reservation_id :: "string option"
  vip_pass_expiry :: "datetime option"

text \<open>
  \<open>Vehicle.__init__\<close>. The ticket is the first eight characters of a random UUID in the
  source; here the caller supplies it.
\<close>

definition Vehicle_init :: "VehicleType \<Rightarrow> CustomerType \<Rightarrow> string \<Rightarrow> string \<Rightarrow> Vehicle" where
  "Vehicle_init vt ct plate ticket =
     \<lparr> vehicle_type = vt, customer_type = ct, license_plate = plate, ticket_id = ticket,
       allocation_time = None, re_entry_count = 0, last_re_entry = None,
       total_overstay_penalty = 0, warnings_issued = 0, is_suspended = False,
       suspension_reason = [], parking_sessions = [], total_parking_time = 0,
       total_fees_paid = 0, accessible_parking = False, ev_charging = False,
       reservation_id = None, vip_pass_expiry = None \<rparr>"

text \<open>\<open>Vehicle.can_re_enter\<close>: the answer and the vehicle as the call leaves it.\<close>

definition can_re_enter :: "datetime \<Rightarrow> Vehicle \<Rightarrow> bool \<times> Vehicle" where
  "can_re_enter now v =
     (if max_re_entries \<le> re_entry_count v then (False, v)
      else
        (let v' = (case last_re_entry v of
                     None \<Rightarrow> v
                   | Some t \<Rightarrow>
                       (if re_entry_window < total_seconds (now - t) / 3600
                        then v\<lparr>re_entry_count := 0\<rparr> else v))
         in (\<not> is_suspended v', v')))"

definition record_re_entry :: "datetime \<Rightarrow> Vehicle \<Rightarrow> Vehicle" where
  "record_re_entry now v = v\<lparr>re_entry_count := re_entry_count v + 1, last_re_entry := Some now\<rparr>"

definition add_parking_session ::
  "datetime option \<Rightarrow> datetime \<Rightarrow> string \<Rightarrow> Vehicle \<Rightarrow> py_error + Vehicle" where
  "add_parking_session entry_time exit_time sid v =
     (case entry_time of
        None \<Rightarrow> Inl TypeError
      | Some e \<Rightarrow>
          Inr (v\<lparr>parking_sessions := parking_sessions v @ [(e, exit_time, sid)],
                 total_parking_time := total_parking_time v + total_seconds (exit_time - e) / 3600\<rparr>))"

definition get_re_entry_fee :: "Vehicle \<Rightarrow> rat" where
  "get_re_entry_fee v = (if 0 < re_entry_count v then re_entry_fee else 0)"

definition issue_warning :: "Vehicle \<Rightarrow> Vehicle" where
  "issue_warning v =
     (let v' = v\<lparr>warnings_issued := warnings_issued v + 1\<rparr>
      in if 3 \<le> warnings_issued v'
         then v'\<lparr>is_suspended := True, suspension_reason := ''Multiple violations''\<rparr>
         else v')"

subsection \<open>Slot\<close>

text \<open>
  Vehicle objects are shared between the caller and the slot that holds them, so a slot
  holds a reference, and the vehicles live in a store indexed by reference.
\<close>

type_synonym vref = nat

record Slot =
  slot_id :: string
  level :: int
  slot_section :: Section
  slot_vehicle_type :: VehicleType
  vehicle :: "vref option"
  slot_allocation_time :: "datetime option"
  is_occupied :: bool

definition Slot_init :: "string \<Rightarrow> int \<Rightarrow> Section \<Rightarrow> VehicleType \<Rightarrow> Slot" where
  "Slot_init sid lv sec vt =
     \<lparr> slot_id = sid, level = lv, slot_section = sec, slot_vehicle_type = vt,
       vehicle = None, slot_allocation_time = None, is_occupied = False \<rparr>"

text \<open>\<open>Slot.allocate\<close>: the answer, the slot and the vehicle store afterwards.\<close>

definition allocate ::
  "datetime \<Rightarrow> vref \<Rightarrow> Slot \<Rightarrow> (vref \<Rightarrow> Vehicle) \<Rightarrow> bool \<times> Slot \<times> (vref \<Rightarrow> Vehicle)" where
  "allocate now r s h =
     (if is_occupied s then (False, s, h)
      else (True,
            s\<lparr>vehicle := Some r, slot_allocation_time := Some now, is_occupied := True\<rparr>,
            h(r := (h r)\<lparr>allocation_time := Some now\<rparr>)))"

text \<open>\<open>Slot.release\<close>: the vehicle that was parked, and the slot afterwards.\<close>

definition release :: "Slot \<Rightarrow> vref option \<times> Slot" where
  "release s =
     (if \<not> is_occupied s then (None, s)
      else (vehicle s, s\<lparr>vehicle := None, is_occupied := False\<rparr>))"

definition pass_active :: "datetime \<Rightarrow> Vehicle \<Rightarrow> bool" where
  "pass_active now v =
     (customer_type v = CustomerType.VIP \<and>
      (case vip_pass_expiry v of None \<Rightarrow> False | Some e \<Rightarrow> now < e))"

definition is_expired :: "(vref \<Rightarrow> Vehicle) \<Rightarrow> datetime \<Rightarrow> Slot \<Rightarrow> py_error + bool" where
  "is_expired h now s =
     (if \<not> is_occupied s then Inr False
      else
        (case slot_allocation_time s of
           None \<Rightarrow> Inr False
         | Some t \<Rightarrow>
                (case vehicle s of
                   None \<Rightarrow> Inl AttributeError
                 | Some r \<Rightarrow>
                     (if pass_active now (h r) then Inr False
                      else
                        (let time_limit =
                               (if customer_type (h r) = CustomerType.REGULAR
                                then timedelta_hours 24 else timedelta_days 30)
                         in Inr (time_limit < now - t))))))"

definition calculate_fee :: "(vref \<Rightarrow> Vehicle) \<Rightarrow> datetime \<Rightarrow> Slot \<Rightarrow> py_error + rat" where
  "calculate_fee h now s =
     (if \<not> is_occupied s then Inr 0
      else
        (case slot_allocation_time s of
           None \<Rightarrow> Inr 0
         | Some t \<Rightarrow>
                (case vehicle s of
                   None \<Rightarrow> Inl AttributeError
                 | Some r \<Rightarrow>
                     (let v = h r;
                          duration = now - t;
                          days_used = max 1 (total_seconds duration / (24 * 3600));
                          daily_rate = DAILY_RATES (vehicle_type v);
                          base_fee =
                            (if pass_active now v then 0
                             else if customer_type v = CustomerType.VIP
                                  then MONTHLY_MEMBERSHIP_RATES (vehicle_type v)
                                  else daily_rate * days_used);
                          time_limit = timedelta_hours (TIME_LIMITS (customer_type v));
                          base_fee' =
                            (if time_limit < duration
                             then base_fee +
                                  min (total_seconds (duration - time_limit) / 3600 * penalty_per_hour)
                                      max_overstay_penalty
                             else base_fee)
                      in Inr (py_round2 base_fee')))))"

subsection \<open>ParkingLot\<close>

text \<open>
  \<open>slots\<close> is the dictionary of the lot in insertion order (the order in which
  \<open>slots.values()\<close> iterates); a slot object is reached through its key. \<open>vehicles\<close> is
  the store of Vehicle objects, which callers create and pass in by reference. The lock
  is left out: every operation is modelled as one atomic step.
\<close>

record state =
  slots :: "(string \<times> Slot) list"
  vip_passes :: "string \<rightharpoonup> datetime"
  vehicles :: "vref \<Rightarrow> Vehicle"

text \<open>\<open>d[k] = v\<close>: an existing key keeps its place, a new key goes to the end.\<close>

fun dict_set :: "('k \<times> 'v) list \<Rightarrow> 'k \<Rightarrow> 'v \<Rightarrow> ('k \<times> 'v) list" where
  "dict_set [] k v = [(k, v)]"
| "dict_set ((k', v') # d) k v =
     (if k' = k then (k, v) # d else (k', v') # dict_set d k v)"

text \<open>The object stored under key \<open>k\<close> is replaced by its state after a method call.\<close>

definition put_slot :: "string \<Rightarrow> Slot \<Rightarrow> (string \<times> Slot) list \<Rightarrow> (string \<times> Slot) list" where
  "put_slot k s' d = map (\<lambda>(k', s). if k' = k then (k', s') else (k', s)) d"

text \<open>Decimal output of \<open>str\<close> and of the format \<open>:02d\<close>.\<close>

fun str_nat :: "nat \<Rightarrow> string" where
  "str_nat n =
     (if n < 10 then [''0123456789'' ! n]
      else str_nat (n div 10) @ [''0123456789'' ! (n mod 10)])"

declare str_nat.simps [simp del]

definition str_int :: "int \<Rightarrow> string" where
  "str_int i = (if i < 0 then ''-'' @ str_nat (nat (- i)) else str_nat (nat i))"

definition fmt_02d :: "int \<Rightarrow> string" where
  "fmt_02d i = (let s = str_int i in replicate (2 - length s) (CHR ''0'') @ s)"

text \<open>
  \<open>ParkingLot.__init__\<close>: for each level the Regular block (15 per vehicle type), the VIP
  block (10) and the EV block (6), each stored under its identifier.
\<close>

definition section_block :: "string \<Rightarrow> nat \<Rightarrow> int \<Rightarrow> Section \<Rightarrow> Slot list" where
  "section_block prefix n lv sec =
     concat (map (\<lambda>vt.
       map (\<lambda>i. Slot_init (prefix @ str_int lv @ take 1 (VehicleType_value vt) @ fmt_02d (int i + 1))
                          lv sec vt) [0..<n])
       [SMALL, MEDIUM, LARGE])"

definition created_slots :: "Slot list" where
  "created_slots =
     concat (map (\<lambda>lv. section_block ''R'' 15 lv Section.REGULAR @
                        section_block ''V'' 10 lv Section.VIP @
                        section_block ''E'' 6 lv Section.EV) [1, 2])"

definition ParkingLot_init :: "(vref \<Rightarrow> Vehicle) \<Rightarrow> state" where
  "ParkingLot_init h =
     \<lparr> slots = foldl (\<lambda>d s. dict_set d (slot_id s) s) [] created_slots,
       vip_passes = Map.empty,
       vehicles = h \<rparr>"

definition find_slot_in_section ::
  "state \<Rightarrow> VehicleType \<Rightarrow> Section \<Rightarrow> (string \<times> Slot) option" where
  "find_slot_in_section st vt sec =
     (let section_slots =
            filter (\<lambda>(k, s). slot_section s = sec \<and> slot_vehicle_type s = vt \<and> \<not> is_occupied s)
                   (slots st)
      in if section_slots = [] then None
         else
           (let section_slots' =
                  (if sec = Section.VIP then sort_key (\<lambda>(k, s). level s) section_slots
                   else if sec = Section.REGULAR then sort_key (\<lambda>(k, s). level s) section_slots
                   else sort_key (\<lambda>(k, s). level s) section_slots)
            in (case section_slots' of [] \<Rightarrow> None | x # _ \<Rightarrow> Some x)))"

fun search_sections ::
  "state \<Rightarrow> VehicleType \<Rightarrow> Section list \<Rightarrow> (string \<times> Slot) option" where
  "search_sections st vt [] = None"
| "search_sections st vt (sec # rest) =
     (case find_slot_in_section st vt sec of
        Some x \<Rightarrow> Some x
      | None \<Rightarrow> search_sections st vt rest)"

definition preferred_sections :: "CustomerType \<Rightarrow> bool \<Rightarrow> Section list" where
  "preferred_sections ct is_ev =
     (if is_ev then [Section.EV]
      else if ct = CustomerType.VIP then [Section.VIP]
      else [Section.REGULAR])"

definition fallback_sections :: "CustomerType \<Rightarrow> bool \<Rightarrow> Section list" where
  "fallback_sections ct is_ev =
     (if is_ev
      then (if ct = CustomerType.VIP then [Section.VIP, Section.REGULAR]
            else [Section.REGULAR, Section.VIP])
      else if ct = CustomerType.VIP then [Section.REGULAR, Section.EV]
      else [Section.EV, Section.VIP])"

definition find_slot ::
  "state \<Rightarrow> VehicleType \<Rightarrow> CustomerType \<Rightarrow> bool \<Rightarrow> (string \<times> Slot) option" where
  "find_slot st vt ct is_ev =
     (case search_sections st vt (preferred_sections ct is_ev) of
        Some x \<Rightarrow> Some x
      | None \<Rightarrow> search_sections st vt (fallback_sections ct is_ev))"

definition allocate_slot ::
  "datetime \<Rightarrow> vref \<Rightarrow> bool \<Rightarrow> state \<Rightarrow> (string \<times> Slot) option \<times> state" where
  "allocate_slot now r is_ev st =
     (case find_slot st (vehicle_type (vehicles st r)) (customer_type (vehicles st r)) is_ev of
        None \<Rightarrow> (None, st)
      | Some (k, s) \<Rightarrow>
          (case allocate now r s (vehicles st) of
             (ok, s', h') \<Rightarrow>
               if ok then (Some (k, s'), st\<lparr>slots := put_slot k s' (slots st), vehicles := h'\<rparr>)
               else (None, st)))"

text \<open>
  The scan that \<open>release_slot\<close> and \<open>get_slot_by_ticket\<close> both run: the first occupied
  slot whose vehicle carries the ticket.
\<close>

fun ticket_scan ::
  "(vref \<Rightarrow> Vehicle) \<Rightarrow> string \<Rightarrow> (string \<times> Slot) list \<Rightarrow> py_error + (string \<times> Slot) option" where
  "ticket_scan h t [] = Inr None"
| "ticket_scan h t ((k, s) # rest) =
     (if is_occupied s
      then (case vehicle s of
              None \<Rightarrow> Inl AttributeError
            | Some r \<Rightarrow> if ticket_id (h r) = t then Inr (Some (k, s)) else ticket_scan h t rest)
      else ticket_scan h t rest)"

definition get_slot_by_ticket :: "string \<Rightarrow> state \<Rightarrow> py_error + (string \<times> Slot) option" where
  "get_slot_by_ticket t st = ticket_scan (vehicles st) t (slots st)"

definition release_slot :: "string \<Rightarrow> state \<Rightarrow> py_error + ((string \<times> Slot) option \<times> state)" where
  "release_slot t st =
     (case ticket_scan (vehicles st) t (slots st) of
        Inl e \<Rightarrow> Inl e
      | Inr None \<Rightarrow> Inr (None, st)
      | Inr (Some (k, s)) \<Rightarrow>
          (case release s of
             (v, s') \<Rightarrow> Inr (Some (k, s'), st\<lparr>slots := put_slot k s' (slots st)\<rparr>)))"

definition get_all_slots :: "state \<Rightarrow> Slot list" where
  "get_all_slots st = map snd (slots st)"

definition get_occupied_slots :: "state \<Rightarrow> Slot list" where
  "get_occupied_slots st = filter is_occupied (map snd (slots st))"

definition get_available_slots_count :: "state \<Rightarrow> VehicleType \<Rightarrow> Section \<Rightarrow> nat" where
  "get_available_slots_count st vt sec =
     length (filter (\<lambda>s. slot_vehicle_type s = vt \<and> slot_section s = sec \<and> \<not> is_occupied s)
                    (map snd (slots st)))"

fun check_expired_scan ::
  "(vref \<Rightarrow> Vehicle) \<Rightarrow> datetime \<Rightarrow> Slot list \<Rightarrow> py_error + Slot list" where
  "check_expired_scan h now [] = Inr []"
| "check_expired_scan h now (s # rest) =
     (case is_expired h now s of
        Inl e \<Rightarrow> Inl e
      | Inr b \<Rightarrow>
          (case check_expired_scan h now rest of
             Inl e \<Rightarrow> Inl e
           | Inr xs \<Rightarrow> Inr (if b then s # xs else xs)))"

definition check_expired_slots :: "datetime \<Rightarrow> state \<Rightarrow> py_error + Slot list" where
  "check_expired_slots now st = check_expired_scan (vehicles st) now (map snd (slots st))"

text \<open>
  \<open>strftime('%H:%M')\<close> and the order of Python strings (by code point, a proper prefix
  first). The periods of \<open>peak_hours\<close> are stored already split at the dash.
\<close>

definition strftime_HM :: "datetime \<Rightarrow> string" where
  "strftime_HM now =
     fmt_02d ((now div 3600000000) mod 24) @ '':'' @ fmt_02d ((now div 60000000) mod 60)"

fun str_le :: "string \<Rightarrow> string \<Rightarrow> bool" where
  "str_le [] ys = True"
| "str_le (x # xs) [] = False"
| "str_le (x # xs) (y # ys) =
     ((of_char x :: nat) < of_char y \<or> (x = y \<and> str_le xs ys))"

definition check_peak_hour_restrictions :: "datetime \<Rightarrow> VehicleType \<Rightarrow> bool" where
  "check_peak_hour_restrictions now vt =
     (if \<not> commercial_vehicle_restrictions then False
      else
        (let current_time = strftime_HM now
         in list_ex (\<lambda>(start, end).
                       str_le start current_time \<and> str_le current_time end \<and> vt = LARGE)
                    peak_hours))"

text \<open>The loop of \<open>validate_vehicle_entry\<close> over the slots: is the plate already parked?\<close>

fun plate_scan :: "(vref \<Rightarrow> Vehicle) \<Rightarrow> string \<Rightarrow> Slot list \<Rightarrow> py_error + bool" where
  "plate_scan h plate [] = Inr False"
| "plate_scan h plate (s # rest) =
     (if is_occupied s
      then (case vehicle s of
              None \<Rightarrow> Inl AttributeError
            | Some r \<Rightarrow> if license_plate (h r) = plate then Inr True else plate_scan h plate rest)
      else plate_scan h plate rest)"

definition validate_vehicle_entry ::
  "datetime \<Rightarrow> vref \<Rightarrow> bool \<Rightarrow> state \<Rightarrow> py_error + ((bool \<times> string) \<times> state)" where
  "validate_vehicle_entry now r is_ev st =
     (let v = vehicles st r
      in if is_suspended v
         then Inr ((False, ''Vehicle suspended: '' @ suspension_reason v), st)
         else if check_peak_hour_restrictions now (vehicle_type v)
         then Inr ((False, ''Large vehicles restricted during peak hours''), st)
         else
           (case can_re_enter now v of
              (ok, v') \<Rightarrow>
                (let st' = st\<lparr>vehicles := (vehicles st)(r := v')\<rparr>
                 in if \<not> ok then Inr ((False, ''Maximum re-entries exceeded''), st')
                    else if customer_type v' = CustomerType.REGULAR
                    then (case plate_scan (vehicles st') (license_plate v') (map snd (slots st')) of
                            Inl e \<Rightarrow> Inl e
                          | Inr True \<Rightarrow> Inr ((False, ''Vehicle already parked''), st')
                          | Inr False \<Rightarrow> Inr ((True, ''Entry allowed''), st'))
                    else Inr ((True, ''Entry allowed''), st'))))"

text \<open>
  The dictionary that \<open>process_vehicle_exit\<close> returns: either the failure with its
  reason, or the billing result.
\<close>

record exit_result =
  res_vehicle :: vref
  res_slot :: "(string \<times> Slot) option"
  res_base_fee :: rat
  res_re_entry_fee :: rat
  res_total_fee :: rat
  res_overstay :: bool
  res_warnings :: int
  res_exit_time :: datetime

datatype exit_outcome = Exit_failed string | Exit_ok exit_result

definition process_vehicle_exit ::
  "datetime \<Rightarrow> string \<Rightarrow> state \<Rightarrow> py_error + (exit_outcome \<times> state)" where
  "process_vehicle_exit now t st =
     (case get_slot_by_ticket t st of
        Inl e \<Rightarrow> Inl e
      | Inr None \<Rightarrow> Inr (Exit_failed ''Ticket not found'', st)
      | Inr (Some (k, s)) \<Rightarrow>
          (case calculate_fee (vehicles st) now s of
             Inl e \<Rightarrow> Inl e
           | Inr fee \<Rightarrow>
               (case vehicle s of
                  None \<Rightarrow> Inl AttributeError
                | Some r \<Rightarrow>
                    (let v = vehicles st r;
                         re_fee = get_re_entry_fee v;
                         total = fee + re_fee
                     in case is_expired (vehicles st) now s of
                          Inl e \<Rightarrow> Inl e
                        | Inr is_overstay \<Rightarrow>
                            (case add_parking_session (slot_allocation_time s) now (slot_id s)
                                    (if is_overstay then issue_warning v else v) of
                               Inl e \<Rightarrow> Inl e
                             | Inr v2 \<Rightarrow>
                                 (let v3 = v2\<lparr>total_fees_paid := total_fees_paid v2 + total\<rparr>;
                                      st1 = st\<lparr>vehicles := (vehicles st)(r := v3)\<rparr>
                                  in case release_slot t st1 of
                                       Inl e \<Rightarrow> Inl e
                                     | Inr (released_slot, st2) \<Rightarrow>
                                         Inr (Exit_ok
                                                \<lparr> res_vehicle = r, res_slot = released_slot,
                                                  res_base_fee = fee, res_re_entry_fee = re_fee,
                                                  res_total_fee = total, res_overstay = is_overstay,
                                                  res_warnings = warnings_issued v3,
                                                  res_exit_time = now \<rparr>,
                                              st2)))))))"

text \<open>\<open>get_system_status\<close>, without the rules text.\<close>

record system_status =
  total_slots :: int
  occupied_slots :: int
  available_slots :: int
  expired_slots :: int
  available_counts :: "VehicleType \<Rightarrow> Section \<Rightarrow> nat"
  timestamp :: datetime

definition get_system_status :: "datetime \<Rightarrow> state \<Rightarrow> py_error + system_status" where
  "get_system_status now st =
     (case check_expired_slots now st of
        Inl e \<Rightarrow> Inl e
      | Inr expired \<Rightarrow>
          Inr \<lparr> total_slots = int (length (slots st)),
                occupied_slots = int (length (get_occupied_slots st)),
                available_slots = int (length (slots st)) - int (length (get_occupied_slots st)),
                expired_slots = int (length expired),
                available_counts = get_available_slots_count st,
                timestamp = now \<rparr>)"

section \<open>Executions of the lot\<close>

text \<open>
  One call of an operation of the lot that returns. The last rule stands for everything
  a caller does to Vehicle objects outside the lot (creating them, \<open>record_re_entry\<close>,
  \<open>issue_warning\<close>, setting \<open>vip_pass_expiry\<close>): it changes the vehicle store only. A call
  that raises leaves the slots as they were, so it is an instance of that rule too. The
  queries return values and leave the state alone.
\<close>

inductive step :: "state \<Rightarrow> state \<Rightarrow> bool" where
  step_allocate: "allocate_slot now r is_ev st = (res, st') \<Longrightarrow> step st st'"
| step_release: "release_slot t st = Inr (res, st') \<Longrightarrow> step st st'"
| step_exit: "process_vehicle_exit now t st = Inr (out, st') \<Longrightarrow> step st st'"
| step_validate: "validate_vehicle_entry now r is_ev st = Inr (ans, st') \<Longrightarrow> step st st'"
| step_caller: "step st (st\<lparr>vehicles := h\<rparr>)"

inductive reachable :: "state \<Rightarrow> bool" where
  reachable_init: "reachable (ParkingLot_init h)"
| reachable_step: "reachable st \<Longrightarrow> step st st' \<Longrightarrow> reachable st'"

text \<open>States reached by \<open>allocate_slot\<close> and \<open>release_slot\<close> calls alone.\<close>

inductive reachable_ar :: "state \<Rightarrow> bool" where
  ar_init: "reachable_ar (ParkingLot_init h)"
| ar_allocate: "reachable_ar st \<Longrightarrow> allocate_slot now r is_ev st = (res, st') \<Longrightarrow> reachable_ar st'"
| ar_release: "reachable_ar st \<Longrightarrow> release_slot t st = Inr (res, st') \<Longrightarrow> reachable_ar st'"

text \<open>
  The same, where \<open>allocate_slot\<close> is only ever called with a vehicle that no occupied
  slot holds at that moment.
\<close>

definition parked :: "state \<Rightarrow> vref \<Rightarrow> bool" where
  "parked st r = list_ex (\<lambda>(k, s). is_occupied s \<and> vehicle s = Some r) (slots st)"

inductive reachable_unparked :: "state \<Rightarrow> bool" where
  un_init: "reachable_unparked (ParkingLot_init h)"
| un_allocate:
    "reachable_unparked st \<Longrightarrow> \<not> parked st r \<Longrightarrow> allocate_slot now r is_ev st = (res, st')
       \<Longrightarrow> reachable_unparked st'"
| un_release: "reachable_unparked st \<Longrightarrow> release_slot t st = Inr (res, st') \<Longrightarrow> reachable_unparked st'"

section \<open>Notions of the specification\<close>

text \<open>The priority/fallback table of the specification, row by row.\<close>

fun priority_table :: "bool \<Rightarrow> CustomerType \<Rightarrow> Section list" where
  "priority_table True CustomerType.VIP = [Section.EV, Section.VIP, Section.REGULAR]"
| "priority_table True CustomerType.REGULAR = [Section.EV, Section.REGULAR, Section.VIP]"
| "priority_table False CustomerType.VIP = [Section.VIP, Section.REGULAR, Section.EV]"
| "priority_table False CustomerType.REGULAR = [Section.REGULAR, Section.EV, Section.VIP]"

text \<open>A slot of the given size in the given section that is free.\<close>

definition candidate :: "VehicleType \<Rightarrow> Section \<Rightarrow> Slot \<Rightarrow> bool" where
  "candidate vt sec s \<longleftrightarrow> slot_section s = sec \<and> slot_vehicle_type s = vt \<and> \<not> is_occupied s"

text \<open>What never changes about a slot: its key, identifier, level, section and size.\<close>

definition slot_attrs :: "string \<times> Slot \<Rightarrow> string \<times> string \<times> int \<times> Section \<times> VehicleType" where
  "slot_attrs ks = (fst ks, slot_id (snd ks), level (snd ks), slot_section (snd ks),
                    slot_vehicle_type (snd ks))"

definition layout :: "state \<Rightarrow> (string \<times> string \<times> int \<times> Section \<times> VehicleType) list" where
  "layout st = map slot_attrs (slots st)"

text \<open>The occupied slots of one (size, section) partition, and the size of a partition.\<close>

definition occupied_count :: "state \<Rightarrow> VehicleType \<Rightarrow> Section \<Rightarrow> nat" where
  "occupied_count st vt sec =
     length (filter (\<lambda>s. slot_vehicle_type s = vt \<and> slot_section s = sec \<and> is_occupied s)
                    (map snd (slots st)))"

fun partition_total :: "Section \<Rightarrow> nat" where
  "partition_total Section.REGULAR = 30"
| "partition_total Section.VIP = 20"
| "partition_total Section.EV = 12"

text \<open>The vehicles that the occupied slots hold, in slot order.\<close>

definition bound_vehicles :: "state \<Rightarrow> vref option list" where
  "bound_vehicles st = map (\<lambda>(k, s). vehicle s) (filter (\<lambda>(k, s). is_occupied s) (slots st))"

text \<open>No vehicle is held by two occupied slots.\<close>

definition exclusive :: "state \<Rightarrow> bool" where
  "exclusive st \<longleftrightarrow>
     (\<forall>(k1, s1) \<in> set (slots st). \<forall>(k2, s2) \<in> set (slots st).
        is_occupied s1 \<and> is_occupied s2 \<and> vehicle s1 = vehicle s2 \<longrightarrow> k1 = k2)"

text \<open>Every occupied slot holds a vehicle and has its allocation time.\<close>

definition bound_ok :: "state \<Rightarrow> bool" where
  "bound_ok st \<longleftrightarrow>
     (\<forall>(k, s) \<in> set (slots st).
        is_occupied s \<longrightarrow> vehicle s \<noteq> None \<and> slot_allocation_time s \<noteq> None)"

text \<open>
  An order-preserving code of the identifiers that \<open>ParkingLot.__init__\<close> builds, used to
  show that they are pairwise different.
\<close>

definition digit_val :: "char \<Rightarrow> int" where
  "digit_val c = int (length (takeWhile (\<lambda>d. d \<noteq> c) ''0123456789''))"

definition key_rank :: "string \<Rightarrow> int" where
  "key_rank k =
     (case k of
        [p, l, t, a, b] \<Rightarrow>
          ((digit_val l * 3 + (if p = CHR ''R'' then 0 else if p = CHR ''V'' then 1 else 2)) * 3
            + (if t = CHR ''S'' then 0 else if t = CHR ''M'' then 1 else 2)) * 100
          + digit_val a * 10 + digit_val b
      | _ \<Rightarrow> - 1)"

subsection \<open>Membership passes\<close>

text \<open>
  Modelled from the spec: the creation and renewal of membership passes. The module
  declares the registry \<open>vip_passes\<close> and never writes it; the code that registers a pass
  when a Member-tier allocation succeeds belongs to the web service (parking\_service.py),
  outside this module. Following section 4.4 of the specification, a successful Member-tier
  allocation for an identifier with no pass or an expired one sets the expiry to now plus
  the membership duration of 30 days; an active pass (now before its expiry) is kept.
\<close>

definition membership_duration :: timedelta where
  "membership_duration = timedelta_days 30"

text \<open>
  Modelled from the spec: a pass is active while now is before its expiry (section 4.3);
  the module has no function that reads the registry.
\<close>

definition registry_active :: "datetime \<Rightarrow> (string \<rightharpoonup> datetime) \<Rightarrow> string \<Rightarrow> bool" where
  "registry_active now reg ident = (case reg ident of None \<Rightarrow> False | Some e \<Rightarrow> now < e)"

text \<open>
  Modelled from the spec: the registry update of section 4.4, which the module leaves to
  its caller: an active pass is kept, otherwise the expiry becomes now plus the duration.
\<close>

definition refresh_pass :: "datetime \<Rightarrow> string \<Rightarrow> (string \<rightharpoonup> datetime) \<Rightarrow> (string \<rightharpoonup> datetime)" where
  "refresh_pass now ident reg =
     (if registry_active now reg ident then reg else reg(ident \<mapsto> now + membership_duration))"

text \<open>
  Modelled from the spec: the allocation as the engine exposes it (section 6), that is
  \<open>allocate_slot\<close> of the module followed, when it succeeds for a Member-tier vehicle, by
  the registry update for its license plate.
\<close>

definition allocate_with_pass ::
  "datetime \<Rightarrow> vref \<Rightarrow> bool \<Rightarrow> state \<Rightarrow> (string \<times> Slot) option \<times> state" where
  "allocate_with_pass now r is_ev st =
     (case allocate_slot now r is_ev st of
        (None, st') \<Rightarrow> (None, st')
      | (Some x, st') \<Rightarrow>
          (Some x,
           if customer_type (vehicles st' r) = CustomerType.VIP
           then st'\<lparr>vip_passes := refresh_pass now (license_plate (vehicles st' r)) (vip_passes st')\<rparr>
           else st'))"

section \<open>Sample states\<close>

text \<open>A Standard-tier Medium vehicle in a Regular slot since time 0.\<close>

definition sample_vehicle_std :: Vehicle where
  "sample_vehicle_std = Vehicle_init MEDIUM CustomerType.REGULAR ''KA01AB1234'' ''A1B2C3D4''"

definition sample_slot_std :: Slot where
  "sample_slot_std =
     \<lparr> slot_id = ''R1M01'', level = 1, slot_section = Section.REGULAR, slot_vehicle_type = MEDIUM,
       vehicle = Some 0, slot_allocation_time = Some 0, is_occupied = True \<rparr>"

text \<open>A Member-tier Small vehicle with a pass that expires at \<open>e\<close>, in a VIP slot since time 0.\<close>

definition sample_vehicle_member :: "datetime \<Rightarrow> Vehicle" where
  "sample_vehicle_member e =
     (Vehicle_init SMALL CustomerType.VIP ''KA05MM0001'' ''0A1B2C3D'')\<lparr>vip_pass_expiry := Some e\<rparr>"

definition sample_slot_member :: Slot where
  "sample_slot_member =
     \<lparr> slot_id = ''V1S01'', level = 1, slot_section = Section.VIP, slot_vehicle_type = SMALL,
       vehicle = Some 1, slot_allocation_time = Some 0, is_occupied = True \<rparr>"

text \<open>
  A vehicle that has re-entered three times at time 0.
\<close>

definition sample_vehicle_three_entries :: Vehicle where
  "sample_vehicle_three_entries =
     record_re_entry 0 (record_re_entry 0 (record_re_entry 0
       (Vehicle_init SMALL CustomerType.REGULAR ''KA03XY0007'' ''9F8E7D6C'')))"

text \<open>
  A lot of four free Small slots: Regular on level 2 and on level 1, EV and VIP on level 1.
\<close>

definition sample_lot :: state where
  "sample_lot =
     \<lparr> slots = [(''R2S01'', Slot_init ''R2S01'' 2 Section.REGULAR SMALL),
                (''R1S01'', Slot_init ''R1S01'' 1 Section.REGULAR SMALL),
                (''E1S01'', Slot_init ''E1S01'' 1 Section.EV SMALL),
                (''V1S01'', Slot_init ''V1S01'' 1 Section.VIP SMALL)],
       vip_passes = Map.empty,
       vehicles = (\<lambda>r. sample_vehicle_std) \<rparr>"

text \<open>A lot whose only slot holds the Standard-tier vehicle.\<close>

definition sample_exit_lot :: state where
  "sample_exit_lot =
     \<lparr> slots = [(''R1M01'', sample_slot_std)], vip_passes = Map.empty,
       vehicles = (\<lambda>r. sample_vehicle_std) \<rparr>"

text \<open>
  The new lot after one \<open>allocate_slot\<close> call for vehicle 0, and after a second call for
  the same vehicle.
\<close>

definition sample_parked_once :: state where
  "sample_parked_once = snd (allocate_slot 0 0 False (ParkingLot_init (\<lambda>r. sample_vehicle_std)))"

definition sample_parked_twice :: state where
  "sample_parked_twice = snd (allocate_slot 1 0 False sample_parked_once)"

text \<open>The lot after one allocation, once its ticket has been released.\<close>

definition sample_released :: state where
  "sample_released =
     (case release_slot ''A1B2C3D4'' sample_parked_once of
        Inr (res, st) \<Rightarrow> st
      | Inl e \<Rightarrow> sample_parked_once)"

text \<open>The four-slot lot with a Member-tier vehicle whose pass has expired.\<close>

definition sample_member_lot :: state where
  "sample_member_lot = sample_lot\<lparr>vehicles := (\<lambda>r. sample_vehicle_member 0)\<rparr>"

section \<open>Allocation search\<close>

lemma find_slot_in_section_eq:
  "find_slot_in_section st vt sec =
     (case sort_key (\<lambda>(k, s). level s) (filter (\<lambda>(k, s). candidate vt sec s) (slots st)) of
        [] \<Rightarrow> None | x # _ \<Rightarrow> Some x)"
proof -
  have "sort_key (\<lambda>(k, s). level s) [] = ([] :: (string \<times> Slot) list)" by simp
  then show ?thesis
    by (simp add: find_slot_in_section_def candidate_def Let_def)
qed



lemma sort_key_head_least:
  assumes "sort_key f xs = x # ys"
  shows "x \<in> set xs \<and> (\<forall>y \<in> set xs. f x \<le> f y)"
proof -
  have "set (x # ys) = set xs" using assms by (metis set_sort)
  moreover have "sorted (map f (x # ys))" using assms by (metis sorted_sort_key)
  ultimately show ?thesis by auto
qed

lemma find_slot_in_section_Some:
  assumes "find_slot_in_section st vt sec = Some (k, s)"
  shows "(k, s) \<in> set (slots st) \<and> candidate vt sec s \<and>
         (\<forall>(k', s') \<in> set (slots st). candidate vt sec s' \<longrightarrow> level s \<le> level s')"
proof -
  let ?xs = "filter (\<lambda>(k, s). candidate vt sec s) (slots st)"
  from assms obtain ys where "sort_key (\<lambda>(k, s). level s) ?xs = (k, s) # ys"
    by (auto simp: find_slot_in_section_eq split: list.splits)
  from sort_key_head_least[OF this]
  have "(k, s) \<in> set ?xs" and "\<forall>y \<in> set ?xs. level s \<le> (case y of (k, s) \<Rightarrow> level s)"
    by auto
  then show ?thesis by auto
qed


lemma search_sections_append:
  "(case search_sections st vt xs of Some x \<Rightarrow> Some x | None \<Rightarrow> search_sections st vt ys)
     = search_sections st vt (xs @ ys)"
  by (induction xs) (auto split: option.splits)

lemma sections_of_table:
  "preferred_sections ct is_ev @ fallback_sections ct is_ev = priority_table is_ev ct"
  by (cases ct; cases is_ev) (simp_all add: preferred_sections_def fallback_sections_def)

lemma find_slot_search: "find_slot st vt ct is_ev = search_sections st vt (priority_table is_ev ct)"
  by (simp add: find_slot_def search_sections_append sections_of_table)




lemma search_sections_Some:
  "search_sections st vt secs = Some x \<Longrightarrow> \<exists>sec \<in> set secs. find_slot_in_section st vt sec = Some x"
  by (induction secs) (auto split: option.splits)

lemma find_slot_Some:
  assumes "find_slot st vt ct is_ev = Some (k, s)"
  shows "(k, s) \<in> set (slots st) \<and> slot_vehicle_type s = vt \<and> \<not> is_occupied s \<and>
         find_slot_in_section st vt (slot_section s) = Some (k, s)"
proof -
  from assms obtain sec where sec: "find_slot_in_section st vt sec = Some (k, s)"
    using search_sections_Some by (fastforce simp: find_slot_search)
  from find_slot_in_section_Some[OF sec] have "(k, s) \<in> set (slots st)" "candidate vt sec s"
    by auto
  with sec show ?thesis by (auto simp: candidate_def)
qed





section \<open>Fees\<close>

lemma py_round2_0: "py_round2 0 = 0"
  by (simp add: py_round2_def)

lemma not_active_regular: "customer_type v = CustomerType.REGULAR \<Longrightarrow> \<not> pass_active now v"
  by (simp add: pass_active_def)

text \<open>
  C4, as the specification states it: a Standard-tier Medium vehicle released after 30
  hours would pay 100 * 2 + min (6 * 25) 500 = 350. The code bills 275: it does not round
  the days up.
\<close>

theorem scenario_c_fee_counterexample:
  "calculate_fee (\<lambda>r. sample_vehicle_std) (timedelta_hours 30) sample_slot_std = Inr 275
   \<and> calculate_fee (\<lambda>r. sample_vehicle_std) (timedelta_hours 30) sample_slot_std
       \<noteq> Inr (100 * 2 + min (6 * 25) 500)"
  by (simp add: calculate_fee_def Let_def pass_active_def sample_vehicle_std_def sample_slot_std_def
      Vehicle_init_def timedelta_hours_def total_seconds_def penalty_per_hour_def
      max_overstay_penalty_def py_round2_def)

text \<open>
  C4, amended. For a Standard-tier Medium vehicle whose fee is computed exactly 30 hours
  after allocation, \<open>calculate_fee\<close> returns the daily rate times the days used as a
  fraction (30 / 24, at least one, not rounded up) plus the overstay surcharge
  min (6 * 25) 500, that is 100 * 1.25 + 150 = 275.
\<close>

theorem scenario_c_fee:
  assumes "is_occupied s" and "slot_allocation_time s = Some t" and "vehicle s = Some r"
    and "customer_type (h r) = CustomerType.REGULAR" and "vehicle_type (h r) = MEDIUM"
  shows "calculate_fee h (t + timedelta_hours 30) s = Inr (100 * (30 / 24) + min (6 * 25) 500)"
  using assms
  by (simp add: calculate_fee_def Let_def not_active_regular timedelta_hours_def total_seconds_def
      penalty_per_hour_def max_overstay_penalty_def py_round2_def)

theorem scenario_c_fee_witness:
  "is_occupied sample_slot_std \<and> slot_allocation_time sample_slot_std = Some 0
   \<and> vehicle sample_slot_std = Some 0
   \<and> customer_type sample_vehicle_std = CustomerType.REGULAR
   \<and> vehicle_type sample_vehicle_std = MEDIUM
   \<and> calculate_fee (\<lambda>r. sample_vehicle_std) (0 + timedelta_hours 30) sample_slot_std
       = Inr (100 * (30 / 24) + min (6 * 25) 500)"
  using scenario_c_fee[of sample_slot_std 0 0 "\<lambda>r. sample_vehicle_std"]
  by (simp add: sample_slot_std_def sample_vehicle_std_def Vehicle_init_def)

text \<open>
  C7, as the specification states it: a Member-tier allocation made while the pass is
  active would be free on release. With a pass that is active at allocation (time 0) and
  expires one hour later, the fee computed after two hours is the membership rate 1050;
  with a pass that is active throughout, the fee computed after 721 hours is the
  surcharge 25.
\<close>

theorem member_fee_counterexample:
  "pass_active 0 (sample_vehicle_member (timedelta_hours 1))
   \<and> calculate_fee (\<lambda>r. sample_vehicle_member (timedelta_hours 1)) (timedelta_hours 2)
        sample_slot_member = Inr 1050
   \<and> pass_active 0 (sample_vehicle_member (timedelta_hours 1000))
   \<and> pass_active (timedelta_hours 721) (sample_vehicle_member (timedelta_hours 1000))
   \<and> calculate_fee (\<lambda>r. sample_vehicle_member (timedelta_hours 1000)) (timedelta_hours 721)
        sample_slot_member = Inr 25"
  by (simp add: calculate_fee_def Let_def pass_active_def sample_vehicle_member_def
      sample_slot_member_def Vehicle_init_def timedelta_hours_def total_seconds_def
      penalty_per_hour_def max_overstay_penalty_def py_round2_def)

text \<open>
  C7, amended. For an occupied slot that holds a Member-tier vehicle whose pass is active
  when the fee is computed (now before the vehicle's \<open>vip_pass_expiry\<close>) and whose stay is
  within the Member limit of 720 hours, \<open>calculate_fee\<close> returns 0.
\<close>

theorem member_fee_zero:
  assumes "is_occupied s" and "slot_allocation_time s = Some t" and "vehicle s = Some r"
    and "pass_active now (h r)" and "now - t \<le> timedelta_hours 720"
  shows "calculate_fee h now s = Inr 0"
  using assms
  by (auto simp add: calculate_fee_def Let_def py_round2_0 pass_active_def)

theorem member_fee_zero_witness:
  "is_occupied sample_slot_member \<and> slot_allocation_time sample_slot_member = Some 0
   \<and> vehicle sample_slot_member = Some 1
   \<and> pass_active (timedelta_hours 48) (sample_vehicle_member (timedelta_hours 100))
   \<and> timedelta_hours 48 - 0 \<le> timedelta_hours 720
   \<and> calculate_fee (\<lambda>r. sample_vehicle_member (timedelta_hours 100)) (timedelta_hours 48)
        sample_slot_member = Inr 0"
  using member_fee_zero[of sample_slot_member 0 1 "timedelta_hours 48"
      "\<lambda>r. sample_vehicle_member (timedelta_hours 100)"]
  by (simp add: sample_slot_member_def sample_vehicle_member_def Vehicle_init_def pass_active_def
      timedelta_hours_def)

section \<open>Re-entry\<close>

lemma no_peak_restriction: "vt \<noteq> LARGE \<Longrightarrow> \<not> check_peak_hour_restrictions now vt"
  by (simp add: check_peak_hour_restrictions_def peak_hours_def)

text \<open>
  C5. A vehicle that re-entered three times at time 0 asks again 25 hours later, after
  the window of 24 hours. \<open>can_re_enter\<close> answers no and leaves the counter at 3: the test
  of the maximum comes first and returns before the reset is reached, and
  \<open>validate_vehicle_entry\<close> refuses the vehicle.
\<close>

theorem can_re_enter_keeps_counter_at_max:
  "re_entry_count sample_vehicle_three_entries = 3
   \<and> last_re_entry sample_vehicle_three_entries = Some 0
   \<and> re_entry_window < total_seconds (timedelta_hours 25 - 0) / 3600
   \<and> can_re_enter (timedelta_hours 25) sample_vehicle_three_entries
        = (False, sample_vehicle_three_entries)
   \<and> validate_vehicle_entry (timedelta_hours 25) 0 False
        (sample_lot\<lparr>vehicles := (\<lambda>r. sample_vehicle_three_entries)\<rparr>)
        = Inr ((False, ''Maximum re-entries exceeded''),
               sample_lot\<lparr>vehicles := (\<lambda>r. sample_vehicle_three_entries)\<rparr>)"
proof -
  have v: "re_entry_count sample_vehicle_three_entries = 3"
      "last_re_entry sample_vehicle_three_entries = Some 0"
      "\<not> is_suspended sample_vehicle_three_entries"
      "vehicle_type sample_vehicle_three_entries = SMALL"
    by (simp_all add: sample_vehicle_three_entries_def record_re_entry_def Vehicle_init_def)
  have c: "can_re_enter (timedelta_hours 25) sample_vehicle_three_entries
        = (False, sample_vehicle_three_entries)"
    by (simp add: can_re_enter_def v max_re_entries_def)
  have w: "re_entry_window < total_seconds (timedelta_hours 25 - 0) / 3600"
    by (simp add: re_entry_window_def total_seconds_def timedelta_hours_def)
  have upd: "(\<lambda>r. sample_vehicle_three_entries)(0 := sample_vehicle_three_entries)
      = (\<lambda>r. sample_vehicle_three_entries)"
    by auto
  have "validate_vehicle_entry (timedelta_hours 25) 0 False
        (sample_lot\<lparr>vehicles := (\<lambda>r. sample_vehicle_three_entries)\<rparr>)
        = Inr ((False, ''Maximum re-entries exceeded''),
               sample_lot\<lparr>vehicles := (\<lambda>r. sample_vehicle_three_entries)\<rparr>)"
    by (simp add: validate_vehicle_entry_def v c no_peak_restriction upd)
  with v c w show ?thesis by simp
qed

section \<open>Release and exit\<close>

lemma ticket_scan_Some:
  "ticket_scan h t d = Inr (Some (k, s)) \<Longrightarrow>
     (k, s) \<in> set d \<and> is_occupied s \<and> (\<exists>r. vehicle s = Some r \<and> ticket_id (h r) = t)"
  by (induction h t d rule: ticket_scan.induct) (auto split: if_splits option.splits)

lemma ticket_scan_None:
  "\<forall>(k, s) \<in> set d. is_occupied s \<longrightarrow> (\<exists>r. vehicle s = Some r \<and> ticket_id (h r) \<noteq> t)
     \<Longrightarrow> ticket_scan h t d = Inr None"
  by (induction h t d rule: ticket_scan.induct) (auto split: if_splits option.splits)

lemma ticket_scan_same_tickets:
  "\<forall>r. ticket_id (h' r) = ticket_id (h r) \<Longrightarrow> ticket_scan h' t d = ticket_scan h t d"
  by (induction h t d rule: ticket_scan.induct) (auto split: if_splits option.splits)

lemma ticket_scan_returns:
  "\<forall>(k, s) \<in> set d. is_occupied s \<longrightarrow> vehicle s \<noteq> None \<Longrightarrow> \<exists>x. ticket_scan h t d = Inr x"
  by (induction h t d rule: ticket_scan.induct) (auto split: if_splits option.splits)

lemma release_slot_unbound:
  assumes "\<forall>(k, s) \<in> set (slots st).
             is_occupied s \<longrightarrow> (\<exists>r. vehicle s = Some r \<and> ticket_id (vehicles st r) \<noteq> t)"
  shows "release_slot t st = Inr (None, st)"
  by (simp add: release_slot_def ticket_scan_None[OF assms])

lemma calculate_fee_free: "\<not> is_occupied s \<Longrightarrow> calculate_fee h now s = Inr 0"
  by (simp add: calculate_fee_def)

lemma calculate_fee_no_time: "slot_allocation_time s = None \<Longrightarrow> calculate_fee h now s = Inr 0"
  by (simp add: calculate_fee_def)

lemma release_keeps_time: "slot_allocation_time (snd (release s)) = slot_allocation_time s"
  by (simp add: release_def)

lemma release_frees: "\<not> is_occupied (snd (release s))"
  by (simp add: release_def)

lemma process_vehicle_exit_ok:
  assumes "process_vehicle_exit now t st = Inr (Exit_ok res, st')"
  obtains k s r v3 where
    "get_slot_by_ticket t st = Inr (Some (k, s))"
    "vehicle s = Some r" "is_occupied s"
    "calculate_fee (vehicles st) now s = Inr (res_base_fee res)"
    "ticket_id v3 = ticket_id (vehicles st r)"
    "release_slot t (st\<lparr>vehicles := (vehicles st)(r := v3)\<rparr>) = Inr (res_slot res, st')"
proof -
  note d = process_vehicle_exit_def
  obtain k s where scan: "get_slot_by_ticket t st = Inr (Some (k, s))"
  proof (cases "get_slot_by_ticket t st")
    case (Inl e)
    with assms show ?thesis by (simp add: d)
  next
    case (Inr x)
    with assms that show ?thesis by (cases x) (auto simp: d)
  qed
  then have occ: "is_occupied s" and "\<exists>r. vehicle s = Some r"
    using ticket_scan_Some[of "vehicles st" t "slots st" k s] by (auto simp: get_slot_by_ticket_def)
  then obtain r where r: "vehicle s = Some r" by blast
  obtain fee where fee: "calculate_fee (vehicles st) now s = Inr fee"
    using assms scan by (cases "calculate_fee (vehicles st) now s") (simp_all add: d)
  obtain ov where ov: "is_expired (vehicles st) now s = Inr ov"
    using assms scan fee r by (cases "is_expired (vehicles st) now s") (simp_all add: d Let_def)
  define v1 where "v1 = (if ov then issue_warning (vehicles st r) else vehicles st r)"
  obtain v2 where v2: "add_parking_session (slot_allocation_time s) now (slot_id s) v1 = Inr v2"
    using assms scan fee r ov
    by (cases "add_parking_session (slot_allocation_time s) now (slot_id s) v1")
       (simp_all add: d Let_def v1_def)
  define v3 where "v3 = v2\<lparr>total_fees_paid := total_fees_paid v2 + (fee + get_re_entry_fee (vehicles st r))\<rparr>"
  have v2': "add_parking_session (slot_allocation_time s) now (slot_id s)
              (if ov then issue_warning (vehicles st r) else vehicles st r) = Inr v2"
    using v2 by (simp add: v1_def)
  obtain rel where rel: "release_slot t (st\<lparr>vehicles := (vehicles st)(r := v3)\<rparr>) = Inr (rel, st')"
      and res: "res_slot res = rel" "res_base_fee res = fee"
    using assms
    by (auto simp: d scan fee r ov v2' Let_def v3_def split: sum.splits prod.splits)
  have "ticket_id v1 = ticket_id (vehicles st r)"
    by (simp add: v1_def issue_warning_def Let_def)
  with v2 have tid: "ticket_id v3 = ticket_id (vehicles st r)"
    by (auto simp: add_parking_session_def v3_def split: option.splits)
  show ?thesis
    using that[OF scan r occ _ tid] fee rel res by simp
qed

lemma release_slot_found:
  "ticket_scan (vehicles st) t (slots st) = Inr (Some (k, s)) \<Longrightarrow>
     release_slot t st
       = Inr (Some (k, snd (release s)), st\<lparr>slots := put_slot k (snd (release s)) (slots st)\<rparr>)"
  by (simp add: release_slot_def split: prod.splits)

lemma put_slot_member: "(k, s) \<in> set d \<Longrightarrow> (k, s') \<in> set (put_slot k s' d)"
proof (induction d)
  case Nil
  then show ?case by simp
next
  case (Cons a d)
  obtain k0 s0 where a: "a = (k0, s0)" by (cases a)
  show ?case
  proof (cases "k0 = k")
    case True
    then show ?thesis by (simp add: a put_slot_def)
  next
    case False
    with Cons a have "(k, s') \<in> set (put_slot k s' d)" by simp
    then show ?thesis by (simp add: a put_slot_def)
  qed
qed

lemma exit_fee_before_release:
  assumes ok: "process_vehicle_exit now t st = Inr (Exit_ok res, st')"
  shows "\<exists>k s0 r v3. get_slot_by_ticket t st = Inr (Some (k, s0))
               \<and> is_occupied s0 \<and> vehicle s0 = Some r
               \<and> calculate_fee (vehicles st) now s0 = Inr (res_base_fee res)
               \<and> ticket_id v3 = ticket_id (vehicles st r)
               \<and> release_slot t (st\<lparr>vehicles := (vehicles st)(r := v3)\<rparr>) = Inr (res_slot res, st')
               \<and> res_slot res = Some (k, snd (release s0))
               \<and> (k, snd (release s0)) \<in> set (slots st')
               \<and> calculate_fee (vehicles st') now (snd (release s0)) = Inr 0"
proof -
  from process_vehicle_exit_ok[OF ok] obtain k s0 r v3 where
      scan: "get_slot_by_ticket t st = Inr (Some (k, s0))"
      and r: "vehicle s0 = Some r"
      and occ: "is_occupied s0"
      and fee: "calculate_fee (vehicles st) now s0 = Inr (res_base_fee res)"
      and tid: "ticket_id v3 = ticket_id (vehicles st r)"
      and rel: "release_slot t (st\<lparr>vehicles := (vehicles st)(r := v3)\<rparr>) = Inr (res_slot res, st')"
    by metis
  let ?st1 = "st\<lparr>vehicles := (vehicles st)(r := v3)\<rparr>"
  from tid have same: "\<forall>x. ticket_id (((vehicles st)(r := v3)) x) = ticket_id (vehicles st x)"
    by simp
  have "ticket_scan ((vehicles st)(r := v3)) t (slots st) = ticket_scan (vehicles st) t (slots st)"
    by (rule ticket_scan_same_tickets[OF same])
  with scan have scan1: "ticket_scan (vehicles ?st1) t (slots ?st1) = Inr (Some (k, s0))"
    by (simp add: get_slot_by_ticket_def)
  from release_slot_found[OF scan1] rel have slot: "res_slot res = Some (k, snd (release s0))"
    and st': "st' = ?st1\<lparr>slots := put_slot k (snd (release s0)) (slots ?st1)\<rparr>"
    by simp_all
  from scan have "(k, s0) \<in> set (slots st)"
    using ticket_scan_Some[of "vehicles st" t "slots st" k s0] by (simp add: get_slot_by_ticket_def)
  then have "(k, snd (release s0)) \<in> set (put_slot k (snd (release s0)) (slots st))"
    by (rule put_slot_member)
  then have mem: "(k, snd (release s0)) \<in> set (slots st')"
    by (simp add: st')
  have z: "calculate_fee (vehicles st') now (snd (release s0)) = Inr 0"
    by (rule calculate_fee_free[OF release_frees])
  show ?thesis
    apply (rule exI[of _ k])
    apply (rule exI[of _ s0])
    apply (rule exI[of _ r])
    apply (rule exI[of _ v3])
    apply (intro conjI)
            apply (rule scan)
           apply (rule occ)
          apply (rule r)
         apply (rule fee)
        apply (rule tid)
       apply (rule rel)
      apply (rule slot)
     apply (rule mem)
    apply (rule z)
    done
qed

lemma std_fee: "calculate_fee (\<lambda>r. sample_vehicle_std) (timedelta_hours 30) sample_slot_std = Inr 275"
  by (simp add: calculate_fee_def Let_def pass_active_def sample_vehicle_std_def sample_slot_std_def
      Vehicle_init_def timedelta_hours_def total_seconds_def penalty_per_hour_def
      max_overstay_penalty_def py_round2_def)

lemma std_expired: "is_expired (\<lambda>r. sample_vehicle_std) (timedelta_hours 30) sample_slot_std = Inr True"
  by (simp add: is_expired_def Let_def pass_active_def sample_vehicle_std_def sample_slot_std_def
      Vehicle_init_def timedelta_hours_def)

lemma std_scan: "get_slot_by_ticket ''A1B2C3D4'' sample_exit_lot = Inr (Some (''R1M01'', sample_slot_std))"
  by (simp add: get_slot_by_ticket_def sample_exit_lot_def sample_slot_std_def sample_vehicle_std_def
      Vehicle_init_def)

lemma process_vehicle_exit_found:
  assumes "get_slot_by_ticket t st = Inr (Some (k, s))" and "vehicle s = Some r"
    and "calculate_fee (vehicles st) now s = Inr fee"
    and "is_expired (vehicles st) now s = Inr ov"
    and "slot_allocation_time s = Some t0"
  shows "\<exists>res st'. process_vehicle_exit now t st = Inr (Exit_ok res, st') \<and> res_base_fee res = fee"
proof -
  define v1 where "v1 = (if ov then issue_warning (vehicles st r) else vehicles st r)"
  obtain v2 where v2: "add_parking_session (slot_allocation_time s) now (slot_id s) v1 = Inr v2"
    and tid: "ticket_id v2 = ticket_id v1"
    using assms(5) by (simp add: add_parking_session_def)
  have tid1: "ticket_id v1 = ticket_id (vehicles st r)"
    by (simp add: v1_def issue_warning_def Let_def)
  define v3 where "v3 = v2\<lparr>total_fees_paid := total_fees_paid v2 + (fee + get_re_entry_fee (vehicles st r))\<rparr>"
  define st1 where "st1 = st\<lparr>vehicles := (vehicles st)(r := v3)\<rparr>"
  have same: "\<forall>x. ticket_id (((vehicles st)(r := v3)) x) = ticket_id (vehicles st x)"
    by (simp add: v3_def tid tid1)
  have "ticket_scan ((vehicles st)(r := v3)) t (slots st) = ticket_scan (vehicles st) t (slots st)"
    by (rule ticket_scan_same_tickets[OF same])
  with assms(1) have "ticket_scan (vehicles st1) t (slots st1) = Inr (Some (k, s))"
    by (simp add: get_slot_by_ticket_def st1_def)
  from release_slot_found[OF this] obtain rel st2 where rel: "release_slot t st1 = Inr (rel, st2)"
    by simp
  have v2': "add_parking_session (slot_allocation_time s) now (slot_id s)
              (if ov then issue_warning (vehicles st r) else vehicles st r) = Inr v2"
    using v2 by (simp add: v1_def)
  have "process_vehicle_exit now t st =
          Inr (Exit_ok \<lparr> res_vehicle = r, res_slot = rel, res_base_fee = fee,
                          res_re_entry_fee = get_re_entry_fee (vehicles st r),
                          res_total_fee = fee + get_re_entry_fee (vehicles st r),
                          res_overstay = ov, res_warnings = warnings_issued v3,
                          res_exit_time = now \<rparr>, st2)"
    using rel
    by (simp add: process_vehicle_exit_def assms(1-4) v2' Let_def v3_def st1_def)
  then show ?thesis by simp
qed

lemma std_exit:
  "\<exists>res st'. process_vehicle_exit (timedelta_hours 30) ''A1B2C3D4'' sample_exit_lot = Inr (Exit_ok res, st')
      \<and> res_base_fee res = 275"
proof (rule process_vehicle_exit_found[OF std_scan])
  show "vehicle sample_slot_std = Some 0" by (simp add: sample_slot_std_def)
  show "calculate_fee (vehicles sample_exit_lot) (timedelta_hours 30) sample_slot_std = Inr 275"
    using std_fee by (simp add: sample_exit_lot_def)
  show "is_expired (vehicles sample_exit_lot) (timedelta_hours 30) sample_slot_std = Inr True"
    using std_expired by (simp add: sample_exit_lot_def)
  show "slot_allocation_time sample_slot_std = Some 0" by (simp add: sample_slot_std_def)
qed


text \<open>
  C10. \<open>calculate_fee\<close> returns 0 for a slot that is not occupied or has no allocation
  time. \<open>release\<close> keeps the allocation time and frees the slot, so the fee of a released
  slot is 0. In \<open>process_vehicle_exit\<close> the base fee reported is the fee of the occupied
  slot as it was found; the final state is the one that \<open>release_slot\<close> returns when it
  is called afterwards, on the state with the vehicle's record updated; the slot it
  returns is the found slot released, it is in the final state, and its fee there is 0.
\<close>

theorem fee_only_before_release:
  "(\<not> is_occupied s \<or> slot_allocation_time s = None \<longrightarrow> calculate_fee h now s = Inr 0)
   \<and> slot_allocation_time (snd (release s)) = slot_allocation_time s
   \<and> calculate_fee h now (snd (release s)) = Inr 0
   \<and> (process_vehicle_exit now t st = Inr (Exit_ok res, st') \<longrightarrow>
        (\<exists>k s0 r v3. get_slot_by_ticket t st = Inr (Some (k, s0))
               \<and> is_occupied s0 \<and> vehicle s0 = Some r
               \<and> calculate_fee (vehicles st) now s0 = Inr (res_base_fee res)
               \<and> ticket_id v3 = ticket_id (vehicles st r)
               \<and> release_slot t (st\<lparr>vehicles := (vehicles st)(r := v3)\<rparr>) = Inr (res_slot res, st')
               \<and> res_slot res = Some (k, snd (release s0))
               \<and> (k, snd (release s0)) \<in> set (slots st')
               \<and> calculate_fee (vehicles st') now (snd (release s0)) = Inr 0))"
proof (intro conjI impI)
  assume "\<not> is_occupied s \<or> slot_allocation_time s = None"
  then show "calculate_fee h now s = Inr 0"
    by (rule disjE) (simp_all add: calculate_fee_free calculate_fee_no_time)
next
  show "slot_allocation_time (snd (release s)) = slot_allocation_time s"
    by (rule release_keeps_time)
next
  show "calculate_fee h now (snd (release s)) = Inr 0"
    by (rule calculate_fee_free[OF release_frees])
next
  assume "process_vehicle_exit now t st = Inr (Exit_ok res, st')"
  then show "\<exists>k s0 r v3. get_slot_by_ticket t st = Inr (Some (k, s0))
               \<and> is_occupied s0 \<and> vehicle s0 = Some r
               \<and> calculate_fee (vehicles st) now s0 = Inr (res_base_fee res)
               \<and> ticket_id v3 = ticket_id (vehicles st r)
               \<and> release_slot t (st\<lparr>vehicles := (vehicles st)(r := v3)\<rparr>) = Inr (res_slot res, st')
               \<and> res_slot res = Some (k, snd (release s0))
               \<and> (k, snd (release s0)) \<in> set (slots st')
               \<and> calculate_fee (vehicles st') now (snd (release s0)) = Inr 0"
    by (rule exit_fee_before_release)
qed

theorem fee_only_before_release_witness:
  "calculate_fee (\<lambda>r. sample_vehicle_std) (timedelta_hours 30) (snd (release sample_slot_std)) = Inr 0
   \<and> slot_allocation_time (snd (release sample_slot_std)) = Some 0
   \<and> (\<exists>res st'. process_vehicle_exit (timedelta_hours 30) ''A1B2C3D4'' sample_exit_lot
                   = Inr (Exit_ok res, st')
        \<and> res_base_fee res = 275
        \<and> res_slot res = Some (''R1M01'', snd (release sample_slot_std))
        \<and> slots st' = [(''R1M01'', snd (release sample_slot_std))]
        \<and> calculate_fee (vehicles st') (timedelta_hours 30) (snd (release sample_slot_std)) = Inr 0)"
proof -
  from std_exit obtain res st' where
    ok: "process_vehicle_exit (timedelta_hours 30) ''A1B2C3D4'' sample_exit_lot = Inr (Exit_ok res, st')"
    and fee: "res_base_fee res = 275"
    by metis
  have t0: "slot_allocation_time sample_slot_std = Some 0" by (simp add: sample_slot_std_def)
  note inst = fee_only_before_release[of sample_slot_std "\<lambda>r. sample_vehicle_std" "timedelta_hours 30"
      "''A1B2C3D4''" sample_exit_lot res st']
  from inst have a: "calculate_fee (\<lambda>r. sample_vehicle_std) (timedelta_hours 30)
      (snd (release sample_slot_std)) = Inr 0"
    by (rule conjunct1[OF conjunct2[OF conjunct2]])
  from inst have "slot_allocation_time (snd (release sample_slot_std))
      = slot_allocation_time sample_slot_std"
    by (rule conjunct1[OF conjunct2])
  with t0 have b: "slot_allocation_time (snd (release sample_slot_std)) = Some 0"
    by simp
  from inst have "process_vehicle_exit (timedelta_hours 30) ''A1B2C3D4'' sample_exit_lot
        = Inr (Exit_ok res, st') \<longrightarrow>
        (\<exists>k s0 r v3. get_slot_by_ticket ''A1B2C3D4'' sample_exit_lot = Inr (Some (k, s0))
               \<and> is_occupied s0 \<and> vehicle s0 = Some r
               \<and> calculate_fee (vehicles sample_exit_lot) (timedelta_hours 30) s0 = Inr (res_base_fee res)
               \<and> ticket_id v3 = ticket_id (vehicles sample_exit_lot r)
               \<and> release_slot ''A1B2C3D4'' (sample_exit_lot\<lparr>vehicles := (vehicles sample_exit_lot)(r := v3)\<rparr>)
                    = Inr (res_slot res, st')
               \<and> res_slot res = Some (k, snd (release s0))
               \<and> (k, snd (release s0)) \<in> set (slots st')
               \<and> calculate_fee (vehicles st') (timedelta_hours 30) (snd (release s0)) = Inr 0)"
    by (rule conjunct2[OF conjunct2[OF conjunct2]])
  with ok obtain k s0 r v3 where
      scan: "get_slot_by_ticket ''A1B2C3D4'' sample_exit_lot = Inr (Some (k, s0))"
      and tid: "ticket_id v3 = ticket_id (vehicles sample_exit_lot r)"
      and rel: "release_slot ''A1B2C3D4'' (sample_exit_lot\<lparr>vehicles := (vehicles sample_exit_lot)(r := v3)\<rparr>)
                    = Inr (res_slot res, st')"
      and c: "res_slot res = Some (k, snd (release s0))"
      and z: "calculate_fee (vehicles st') (timedelta_hours 30) (snd (release s0)) = Inr 0"
    by metis
  from scan have ks: "k = ''R1M01''" "s0 = sample_slot_std"
    by (simp_all add: std_scan)
  with c have c': "res_slot res = Some (''R1M01'', snd (release sample_slot_std))" by simp
  from z ks have z': "calculate_fee (vehicles st') (timedelta_hours 30)
      (snd (release sample_slot_std)) = Inr 0" by simp
  let ?st1 = "sample_exit_lot\<lparr>vehicles := (vehicles sample_exit_lot)(r := v3)\<rparr>"
  from tid have same: "\<forall>x. ticket_id (((vehicles sample_exit_lot)(r := v3)) x)
      = ticket_id (vehicles sample_exit_lot x)"
    by simp
  have "ticket_scan ((vehicles sample_exit_lot)(r := v3)) ''A1B2C3D4'' (slots sample_exit_lot)
      = ticket_scan (vehicles sample_exit_lot) ''A1B2C3D4'' (slots sample_exit_lot)"
    by (rule ticket_scan_same_tickets[OF same])
  with std_scan have "ticket_scan (vehicles ?st1) ''A1B2C3D4'' (slots ?st1)
      = Inr (Some (''R1M01'', sample_slot_std))"
    by (simp add: get_slot_by_ticket_def)
  from release_slot_found[OF this] rel
  have "st' = ?st1\<lparr>slots := put_slot ''R1M01'' (snd (release sample_slot_std)) (slots ?st1)\<rparr>"
    by simp
  then have sl: "slots st' = [(''R1M01'', snd (release sample_slot_std))]"
    by (simp add: sample_exit_lot_def put_slot_def)
  have "\<exists>res st'. process_vehicle_exit (timedelta_hours 30) ''A1B2C3D4'' sample_exit_lot
                   = Inr (Exit_ok res, st')
        \<and> res_base_fee res = 275
        \<and> res_slot res = Some (''R1M01'', snd (release sample_slot_std))
        \<and> slots st' = [(''R1M01'', snd (release sample_slot_std))]
        \<and> calculate_fee (vehicles st') (timedelta_hours 30) (snd (release sample_slot_std)) = Inr 0"
    apply (rule exI[of _ res])
    apply (rule exI[of _ st'])
    apply (intro conjI)
        apply (rule ok)
       apply (rule fee)
      apply (rule c')
     apply (rule sl)
    apply (rule z')
    done
  with a b show ?thesis by (intro conjI)
qed

section \<open>The slots of a new lot\<close>

lemma dict_set_fresh: "k \<notin> fst ` set d \<Longrightarrow> dict_set d k v = d @ [(k, v)]"
  by (induction d) auto

lemma foldl_dict_set_fresh:
  "distinct (map fst d @ map slot_id xs) \<Longrightarrow>
     foldl (\<lambda>d s. dict_set d (slot_id s) s) d xs = d @ map (\<lambda>s. (slot_id s, s)) xs"
proof (induction xs arbitrary: d)
  case Nil
  then show ?case by simp
next
  case (Cons x xs)
  from Cons.prems have fresh: "slot_id x \<notin> fst ` set d" by auto
  from Cons.prems have "distinct (map fst (d @ [(slot_id x, x)]) @ map slot_id xs)" by auto
  from Cons.IH[OF this] show ?case by (simp add: dict_set_fresh[OF fresh])
qed

lemma created_ranked: "successively (<) (map (key_rank \<circ> slot_id) created_slots)"
  by code_simp

lemma successively_less_distinct:
  assumes "successively (<) (map (f :: 'a \<Rightarrow> int) xs)"
  shows "distinct xs"
proof -
  from assms have "sorted_wrt (<) (map f xs)"
    by (simp add: successively_iff_sorted_wrt_strong)
  then have "distinct (map f xs)"
    using strict_sorted_iff by blast
  then show ?thesis
    by (simp add: distinct_map)
qed

lemma created_distinct: "distinct (map slot_id created_slots)"
  using created_ranked successively_less_distinct[of key_rank "map slot_id created_slots"]
  by simp

lemma init_slots: "slots (ParkingLot_init h) = map (\<lambda>s. (slot_id s, s)) created_slots"
  using foldl_dict_set_fresh[of "[]" created_slots] created_distinct
  by (simp add: ParkingLot_init_def)

lemma init_explicit:
  "ParkingLot_init h = \<lparr> slots = map (\<lambda>s. (slot_id s, s)) created_slots,
       vip_passes = Map.empty, vehicles = h \<rparr>"
  using init_slots[of h] by (simp add: ParkingLot_init_def)

lemma created_free: "s \<in> set created_slots \<Longrightarrow> \<not> is_occupied s"
  by (auto simp: created_slots_def section_block_def Slot_init_def)

lemma created_length: "length created_slots = 186"
  by (simp add: created_slots_def section_block_def length_concat)

lemma created_partition:
  "length (filter (\<lambda>s. slot_vehicle_type s = vt \<and> slot_section s = sec) created_slots)
     = partition_total sec"
  by (cases vt; cases sec)
     (simp_all add: created_slots_def section_block_def Slot_init_def filter_concat o_def
        length_concat)

lemma same_key_same_slot:
  "distinct (map fst d) \<Longrightarrow> (k, a) \<in> set d \<Longrightarrow> (k, b) \<in> set d \<Longrightarrow> a = b"
  by (rule eq_key_imp_eq_value)

lemma map_fst_put_slot: "map fst (put_slot k s' d) = map fst d"
  by (induction d) (auto simp: put_slot_def)

lemma put_slot_Nil: "put_slot k s' [] = []"
  by (simp add: put_slot_def)

lemma put_slot_Cons:
  "put_slot k s' ((k0, s0) # d) = (if k0 = k then (k0, s') else (k0, s0)) # put_slot k s' d"
  by (simp add: put_slot_def)

lemma put_slot_layout_all:
  "\<forall>s0. (k, s0) \<in> set d \<longrightarrow> slot_attrs (k, s') = slot_attrs (k, s0)
     \<Longrightarrow> map slot_attrs (put_slot k s' d) = map slot_attrs d"
proof (induction d)
  case Nil
  show ?case by (simp add: put_slot_Nil)
next
  case (Cons a d)
  obtain k0 s0 where a: "a = (k0, s0)" by (cases a)
  from Cons.prems have "\<forall>s0. (k, s0) \<in> set d \<longrightarrow> slot_attrs (k, s') = slot_attrs (k, s0)"
    by simp
  from Cons.IH[OF this] have tl: "map slot_attrs (put_slot k s' d) = map slot_attrs d" .
  show ?case
  proof (cases "k0 = k")
    case True
    with Cons.prems a have "slot_attrs (k, s') = slot_attrs (k, s0)" by simp
    with True tl a show ?thesis by (simp add: put_slot_Cons)
  next
    case False
    with tl a show ?thesis by (simp add: put_slot_Cons)
  qed
qed

lemma put_slot_layout:
  assumes "distinct (map fst d)" and "(k, s) \<in> set d" and "slot_attrs (k, s') = slot_attrs (k, s)"
  shows "map slot_attrs (put_slot k s' d) = map slot_attrs d"
proof (rule put_slot_layout_all, intro allI impI)
  fix s0 assume "(k, s0) \<in> set d"
  from same_key_same_slot[OF assms(1) this assms(2)] assms(3)
  show "slot_attrs (k, s') = slot_attrs (k, s0)" by simp
qed

lemma in_put_slot:
  "(k', s0) \<in> set (put_slot k s' d) \<longleftrightarrow>
     (k' \<noteq> k \<and> (k', s0) \<in> set d) \<or> (k' = k \<and> s0 = s' \<and> k \<in> fst ` set d)"
proof (induction d)
  case Nil
  show ?case by (simp add: put_slot_Nil)
next
  case (Cons a d)
  obtain k0 s1 where a: "a = (k0, s1)" by (cases a)
  show ?case
    unfolding a put_slot_Cons using Cons.IH by (cases "k0 = k") auto
qed

section \<open>What one call changes\<close>

lemma allocate_slot_effect:
  assumes "allocate_slot now r is_ev st = (res, st')"
  obtains (none) "res = None" and "st' = st"
  | (bound) k s where "(k, s) \<in> set (slots st)" and "\<not> is_occupied s"
      and "res = Some (k, s\<lparr>vehicle := Some r, slot_allocation_time := Some now, is_occupied := True\<rparr>)"
      and "st' = st\<lparr>slots := put_slot k
                 (s\<lparr>vehicle := Some r, slot_allocation_time := Some now, is_occupied := True\<rparr>) (slots st),
              vehicles := (vehicles st)(r := (vehicles st r)\<lparr>allocation_time := Some now\<rparr>)\<rparr>"
proof (cases "find_slot st (vehicle_type (vehicles st r)) (customer_type (vehicles st r)) is_ev")
  case None
  with assms have "res = None" "st' = st" by (simp_all add: allocate_slot_def)
  then show ?thesis by (rule none)
next
  case (Some x)
  obtain k s where x: "x = (k, s)" by (cases x)
  from find_slot_Some[OF Some[unfolded x]] have mem: "(k, s) \<in> set (slots st)"
    and free: "\<not> is_occupied s" by simp_all
  from assms Some x free have
    "res = Some (k, s\<lparr>vehicle := Some r, slot_allocation_time := Some now, is_occupied := True\<rparr>)"
    "st' = st\<lparr>slots := put_slot k
                 (s\<lparr>vehicle := Some r, slot_allocation_time := Some now, is_occupied := True\<rparr>) (slots st),
              vehicles := (vehicles st)(r := (vehicles st r)\<lparr>allocation_time := Some now\<rparr>)\<rparr>"
    by (simp_all add: allocate_slot_def allocate_def)
  with mem free show ?thesis by (rule bound)
qed

lemma release_slot_effect:
  assumes "release_slot t st = Inr (res, st')"
  obtains (none) "res = None" and "st' = st"
  | (freed) k s r where "(k, s) \<in> set (slots st)" and "is_occupied s" and "vehicle s = Some r"
      and "ticket_id (vehicles st r) = t"
      and "res = Some (k, s\<lparr>vehicle := None, is_occupied := False\<rparr>)"
      and "st' = st\<lparr>slots := put_slot k (s\<lparr>vehicle := None, is_occupied := False\<rparr>) (slots st)\<rparr>"
proof (cases "ticket_scan (vehicles st) t (slots st)")
  case (Inl e)
  with assms show ?thesis by (simp add: release_slot_def)
next
  case (Inr x)
  show ?thesis
  proof (cases x)
    case None
    with Inr assms have "res = None" "st' = st" by (simp_all add: release_slot_def)
    then show ?thesis by (rule none)
  next
    case (Some y)
    obtain k s where y: "y = (k, s)" by (cases y)
    from ticket_scan_Some[of "vehicles st" t "slots st" k s] Inr Some y
    obtain r where mem: "(k, s) \<in> set (slots st)" and occ: "is_occupied s"
      and r: "vehicle s = Some r" and tid: "ticket_id (vehicles st r) = t"
      by auto
    from occ have "snd (release s) = s\<lparr>vehicle := None, is_occupied := False\<rparr>"
      by (simp add: release_def)
    with release_slot_found[of st t k s] Inr Some y assms
    have "res = Some (k, s\<lparr>vehicle := None, is_occupied := False\<rparr>)"
      "st' = st\<lparr>slots := put_slot k (s\<lparr>vehicle := None, is_occupied := False\<rparr>) (slots st)\<rparr>"
      by simp_all
    with mem occ r tid show ?thesis by (rule freed)
  qed
qed

lemma process_vehicle_exit_failed:
  assumes "process_vehicle_exit now t st = Inr (Exit_failed reason, st')"
  shows "st' = st"
proof (cases "get_slot_by_ticket t st")
  case (Inl e)
  with assms show ?thesis by (simp add: process_vehicle_exit_def)
next
  case (Inr x)
  show ?thesis
  proof (cases x)
    case None
    with Inr assms show ?thesis by (simp add: process_vehicle_exit_def)
  next
    case (Some y)
    obtain k s where y: "y = (k, s)" by (cases y)
    note d = process_vehicle_exit_def
    from ticket_scan_Some[of "vehicles st" t "slots st" k s] Inr Some y
    obtain r where r: "vehicle s = Some r" by (auto simp: get_slot_by_ticket_def)
    have scan: "get_slot_by_ticket t st = Inr (Some (k, s))" using Inr Some y by simp
    obtain fee where fee: "calculate_fee (vehicles st) now s = Inr fee"
      using assms scan by (cases "calculate_fee (vehicles st) now s") (simp_all add: d)
    obtain ov where ov: "is_expired (vehicles st) now s = Inr ov"
      using assms scan fee r by (cases "is_expired (vehicles st) now s") (simp_all add: d Let_def)
    obtain v2 where v2: "add_parking_session (slot_allocation_time s) now (slot_id s)
              (if ov then issue_warning (vehicles st r) else vehicles st r) = Inr v2"
      using assms scan fee r ov
      by (cases "add_parking_session (slot_allocation_time s) now (slot_id s)
              (if ov then issue_warning (vehicles st r) else vehicles st r)")
         (simp_all add: d Let_def)
    from assms show ?thesis
      by (auto simp: d scan fee r ov v2 Let_def split: sum.splits prod.splits)
  qed
qed

lemma process_vehicle_exit_effect:
  assumes "process_vehicle_exit now t st = Inr (out, st')"
  obtains (same) "st' = st"
  | (released) h res where "release_slot t (st\<lparr>vehicles := h\<rparr>) = Inr (res, st')"
proof (cases out)
  case (Exit_failed reason)
  with assms have "st' = st" using process_vehicle_exit_failed by simp
  then show ?thesis by (rule same)
next
  case (Exit_ok res)
  from process_vehicle_exit_ok[OF assms[unfolded Exit_ok]] obtain r v3 where
    "release_slot t (st\<lparr>vehicles := (vehicles st)(r := v3)\<rparr>) = Inr (res_slot res, st')"
    by metis
  then show ?thesis by (rule released)
qed

lemma validate_vehicle_entry_effect:
  assumes "validate_vehicle_entry now r is_ev st = Inr (ans, st')"
  shows "slots st' = slots st \<and> vip_passes st' = vip_passes st"
proof -
  let ?v = "vehicles st r"
  show ?thesis
  proof (cases "is_suspended ?v \<or> check_peak_hour_restrictions now (vehicle_type ?v)")
    case True
    with assms have "st' = st"
      by (auto simp: validate_vehicle_entry_def Let_def split: if_splits)
    then show ?thesis by simp
  next
    case False
    obtain ok v' where c: "can_re_enter now ?v = (ok, v')"
      by (cases "can_re_enter now ?v")
    define st1 where "st1 = st\<lparr>vehicles := (vehicles st)(r := v')\<rparr>"
    have "st' = st1"
    proof (cases ok)
      case False
      with assms \<open>\<not> (is_suspended ?v \<or> check_peak_hour_restrictions now (vehicle_type ?v))\<close> c
      show ?thesis by (simp add: validate_vehicle_entry_def Let_def st1_def)
    next
      case True
      show ?thesis
      proof (cases "customer_type v' = CustomerType.REGULAR")
        case False
        with assms \<open>\<not> (is_suspended ?v \<or> check_peak_hour_restrictions now (vehicle_type ?v))\<close> c True
        show ?thesis by (simp add: validate_vehicle_entry_def Let_def st1_def)
      next
        case reg: True
        show ?thesis
        proof (cases "plate_scan ((vehicles st)(r := v')) (license_plate v') (map snd (slots st))")
          case (Inl e)
          with assms \<open>\<not> (is_suspended ?v \<or> check_peak_hour_restrictions now (vehicle_type ?v))\<close> c True reg
          show ?thesis by (simp add: validate_vehicle_entry_def Let_def st1_def)
        next
          case (Inr b)
          with assms \<open>\<not> (is_suspended ?v \<or> check_peak_hour_restrictions now (vehicle_type ?v))\<close> c True reg
          show ?thesis by (cases b) (simp_all add: validate_vehicle_entry_def Let_def st1_def)
        qed
      qed
    qed
    then show ?thesis by (simp add: st1_def)
  qed
qed

lemma step_slots:
  assumes "step st st'"
  obtains (same) "slots st' = slots st"
  | (bound) k s r now where "(k, s) \<in> set (slots st)" and "\<not> is_occupied s"
      and "slots st' = put_slot k
             (s\<lparr>vehicle := Some r, slot_allocation_time := Some now, is_occupied := True\<rparr>) (slots st)"
  | (freed) k s where "(k, s) \<in> set (slots st)" and "is_occupied s"
      and "slots st' = put_slot k (s\<lparr>vehicle := None, is_occupied := False\<rparr>) (slots st)"
  using assms
proof (cases rule: step.cases)
  case (step_allocate now r is_ev res)
  from this(1) show ?thesis
  proof (cases rule: allocate_slot_effect)
    case none
    then show ?thesis using same by simp
  next
    case (bound k s)
    from bound(1,2) show ?thesis by (rule that(2)) (simp add: bound(4))
  qed
next
  case (step_release t res)
  from this(1) show ?thesis
  proof (cases rule: release_slot_effect)
    case none
    then show ?thesis using same by simp
  next
    case (freed k s r)
    from freed(1,2) show ?thesis by (rule that(3)) (simp add: freed(6))
  qed
next
  case (step_exit now t out)
  from this(1) show ?thesis
  proof (cases rule: process_vehicle_exit_effect)
    case same
    then show ?thesis using that(1) by simp
  next
    case (released h res)
    from this show ?thesis
    proof (cases rule: release_slot_effect)
      case none
      then show ?thesis using that(1) by simp
    next
      case (freed k s r)
      have "(k, s) \<in> set (slots st)" using freed(1) by simp
      then show ?thesis using freed(2) by (rule that(3)) (simp add: freed(6))
    qed
  qed
next
  case (step_validate now r is_ev ans)
  from validate_vehicle_entry_effect[OF this(1)] show ?thesis using same by simp
next
  case (step_caller h)
  then show ?thesis using same by simp
qed

section \<open>Invariants of the reachable states\<close>

lemma map_fst_layout: "map fst (layout st) = map fst (slots st)"
  by (simp add: layout_def slot_attrs_def o_def)

lemma init_layout:
  "layout (ParkingLot_init h) = map (\<lambda>s. slot_attrs (slot_id s, s)) created_slots"
  by (simp add: layout_def init_slots o_def)

lemma init_keys_distinct: "distinct (map fst (layout (ParkingLot_init h)))"
  using created_distinct by (simp add: map_fst_layout init_slots o_def)

lemma init_bound_ok: "bound_ok (ParkingLot_init h)"
  using created_free by (auto simp: bound_ok_def init_slots)

lemma step_layout:
  assumes "step st st'" and "distinct (map fst (slots st))"
  shows "layout st' = layout st"
  using assms(1)
proof (cases rule: step_slots)
  case same
  then show ?thesis by (simp add: layout_def)
next
  case (bound k s r now)
  have "map slot_attrs (put_slot k
          (s\<lparr>vehicle := Some r, slot_allocation_time := Some now, is_occupied := True\<rparr>) (slots st))
        = map slot_attrs (slots st)"
    by (rule put_slot_layout[OF assms(2) bound(1)]) (simp add: slot_attrs_def)
  with bound(3) show ?thesis by (simp add: layout_def)
next
  case (freed k s)
  have "map slot_attrs (put_slot k (s\<lparr>vehicle := None, is_occupied := False\<rparr>) (slots st))
        = map slot_attrs (slots st)"
    by (rule put_slot_layout[OF assms(2) freed(1)]) (simp add: slot_attrs_def)
  with freed(3) show ?thesis by (simp add: layout_def)
qed

lemma step_bound_ok:
  assumes "step st st'" and "bound_ok st"
  shows "bound_ok st'"
  using assms(1)
proof (cases rule: step_slots)
  case same
  with assms(2) show ?thesis by (simp add: bound_ok_def)
next
  case (bound k s r now)
  show ?thesis
    unfolding bound_ok_def bound(3)
  proof (intro ballI, clarify)
    fix k' s0
    assume "(k', s0) \<in> set (put_slot k
        (s\<lparr>vehicle := Some r, slot_allocation_time := Some now, is_occupied := True\<rparr>) (slots st))"
      and occ: "is_occupied s0"
    then consider "(k', s0) \<in> set (slots st)"
      | "s0 = s\<lparr>vehicle := Some r, slot_allocation_time := Some now, is_occupied := True\<rparr>"
      by (auto simp: in_put_slot)
    then show "vehicle s0 \<noteq> None \<and> slot_allocation_time s0 \<noteq> None"
    proof cases
      case 1
      with assms(2) occ show ?thesis by (auto simp: bound_ok_def)
    next
      case 2
      then show ?thesis by simp
    qed
  qed
next
  case (freed k s)
  show ?thesis
    unfolding bound_ok_def freed(3)
  proof (intro ballI, clarify)
    fix k' s0
    assume "(k', s0) \<in> set (put_slot k (s\<lparr>vehicle := None, is_occupied := False\<rparr>) (slots st))"
      and occ: "is_occupied s0"
    then consider "(k', s0) \<in> set (slots st)"
      | "s0 = s\<lparr>vehicle := None, is_occupied := False\<rparr>"
      by (auto simp: in_put_slot)
    then show "vehicle s0 \<noteq> None \<and> slot_allocation_time s0 \<noteq> None"
    proof cases
      case 1
      with assms(2) occ show ?thesis by (auto simp: bound_ok_def)
    next
      case 2
      with occ show ?thesis by simp
    qed
  qed
qed

lemma reachable_layout:
  "reachable st \<Longrightarrow> layout st = map (\<lambda>s. slot_attrs (slot_id s, s)) created_slots \<and> bound_ok st"
proof (induction rule: reachable.induct)
  case (reachable_init h)
  show ?case by (simp add: init_layout init_bound_ok)
next
  case (reachable_step st st')
  then have "distinct (map fst (layout st))"
    using init_keys_distinct[of undefined] by (simp add: init_layout)
  then have "distinct (map fst (slots st))" by (simp add: map_fst_layout)
  from step_layout[OF reachable_step.hyps(2) this] step_bound_ok[OF reachable_step.hyps(2)]
    reachable_step.IH
  show ?case by simp
qed

lemma count_split:
  "length (filter (\<lambda>s. A s \<and> is_occupied s) xs) + length (filter (\<lambda>s. A s \<and> \<not> is_occupied s) xs)
     = length (filter A xs)"
  by (induction xs) auto

lemma free_by_partition:
  "length (filter (\<lambda>s. \<not> is_occupied s) xs) =
     sum_list (map (\<lambda>vt. sum_list (map (\<lambda>sec.
        length (filter (\<lambda>s. slot_vehicle_type s = vt \<and> slot_section s = sec \<and> \<not> is_occupied s) xs))
        [Section.REGULAR, Section.VIP, Section.EV])) [SMALL, MEDIUM, LARGE])"
proof (induction xs)
  case Nil
  show ?case by simp
next
  case (Cons a xs)
  then show ?case
    by (cases "slot_vehicle_type a"; cases "slot_section a"; cases "is_occupied a") simp_all
qed

lemma partition_of_layout:
  assumes "layout st = map (\<lambda>s. slot_attrs (slot_id s, s)) created_slots"
  shows "length (filter (\<lambda>s. slot_vehicle_type s = vt \<and> slot_section s = sec) (map snd (slots st)))
           = partition_total sec"
proof -
  have "length (filter (\<lambda>s. slot_vehicle_type s = vt \<and> slot_section s = sec) (map snd (slots st)))
      = length (filter (\<lambda>a. snd (snd (snd (snd a))) = vt \<and> fst (snd (snd (snd a))) = sec) (layout st))"
    by (simp add: layout_def filter_map o_def slot_attrs_def)
  also have "\<dots> = length (filter (\<lambda>s. slot_vehicle_type s = vt \<and> slot_section s = sec) created_slots)"
    by (simp add: assms filter_map o_def slot_attrs_def)
  finally show ?thesis by (simp add: created_partition)
qed

lemma is_expired_returns:
  "(is_occupied s \<longrightarrow> vehicle s \<noteq> None) \<Longrightarrow> \<exists>b. is_expired h now s = Inr b"
  by (auto simp: is_expired_def Let_def split: option.splits)

lemma check_expired_scan_returns:
  "\<forall>s \<in> set xs. is_occupied s \<longrightarrow> vehicle s \<noteq> None \<Longrightarrow> \<exists>ys. check_expired_scan h now xs = Inr ys"
proof (induction xs)
  case Nil
  show ?case by simp
next
  case (Cons a xs)
  then obtain ys where ys: "check_expired_scan h now xs = Inr ys" by auto
  from Cons.prems is_expired_returns[of a h now] obtain b where "is_expired h now a = Inr b"
    by auto
  with ys show ?case by simp
qed

lemma get_system_status_returns:
  assumes "bound_ok st"
  shows "\<exists>r. get_system_status now st = Inr r \<and> total_slots r = int (length (slots st))
            \<and> occupied_slots r + available_slots r = total_slots r"
proof -
  from assms have "\<forall>s \<in> set (map snd (slots st)). is_occupied s \<longrightarrow> vehicle s \<noteq> None"
    by (auto simp: bound_ok_def)
  from check_expired_scan_returns[OF this] obtain ys where
    "check_expired_slots now st = Inr ys" by (auto simp: check_expired_slots_def)
  then show ?thesis by (simp add: get_system_status_def)
qed

lemma sample_parked_once_reachable: "reachable sample_parked_once"
proof -
  have "allocate_slot 0 0 False (ParkingLot_init (\<lambda>r. sample_vehicle_std))
      = (fst (allocate_slot 0 0 False (ParkingLot_init (\<lambda>r. sample_vehicle_std))), sample_parked_once)"
    by (simp add: sample_parked_once_def)
  from reachable_step[OF reachable_init step_allocate[OF this]] show ?thesis .
qed

text \<open>
  C2. In every reachable state the slots are the 186 slots that the constructor built,
  with key, identifier, level, section and size unchanged; the occupied slots and the
  available counts of all partitions add up to the number of slots; in every
  (size, section) partition the occupied and the available slots add up to the size of
  the partition; and \<open>get_system_status\<close> returns, with occupied plus available equal to
  the total of 186.
\<close>

theorem capacity_invariant:
  assumes "reachable st"
  shows "layout st = layout (ParkingLot_init h)
       \<and> length (slots st) = 186
       \<and> length (get_occupied_slots st)
           + sum_list (map (\<lambda>vt. sum_list (map (get_available_slots_count st vt)
                 [Section.REGULAR, Section.VIP, Section.EV])) [SMALL, MEDIUM, LARGE])
           = length (slots st)
       \<and> (\<forall>vt sec. occupied_count st vt sec + get_available_slots_count st vt sec
             = partition_total sec)
       \<and> (\<exists>r. get_system_status now st = Inr r \<and> total_slots r = 186
             \<and> occupied_slots r + available_slots r = total_slots r)"
proof -
  from reachable_layout[OF assms]
  have lay: "layout st = map (\<lambda>s. slot_attrs (slot_id s, s)) created_slots" and ok: "bound_ok st"
    by simp_all
  have 1: "layout st = layout (ParkingLot_init h)"
    by (simp add: lay init_layout)
  have "length (layout st) = 186" by (simp add: lay created_length)
  then have 2: "length (slots st) = 186" by (simp add: layout_def)
  have "length (filter is_occupied (map snd (slots st)))
          + length (filter (\<lambda>s. \<not> is_occupied s) (map snd (slots st))) = length (map snd (slots st))"
    by (rule sum_length_filter_compl)
  then have 3: "length (get_occupied_slots st)
           + sum_list (map (\<lambda>vt. sum_list (map (get_available_slots_count st vt)
                 [Section.REGULAR, Section.VIP, Section.EV])) [SMALL, MEDIUM, LARGE])
           = length (slots st)"
    unfolding get_occupied_slots_def get_available_slots_count_def
      free_by_partition[of "map snd (slots st)"] by simp
  have 4: "occupied_count st vt sec + get_available_slots_count st vt sec = partition_total sec"
    for vt sec
    unfolding occupied_count_def get_available_slots_count_def
    using count_split[of "\<lambda>s. slot_vehicle_type s = vt \<and> slot_section s = sec" "map snd (slots st)"]
      partition_of_layout[OF lay, of vt sec]
    by simp
  from get_system_status_returns[OF ok, of now] 2
  have 5: "\<exists>r. get_system_status now st = Inr r \<and> total_slots r = 186
             \<and> occupied_slots r + available_slots r = total_slots r"
    by auto
  from 1 2 3 4 5 show ?thesis by (intro conjI allI)
qed

theorem capacity_invariant_witness:
  "length (slots sample_parked_once) = 186
   \<and> occupied_count sample_parked_once MEDIUM Section.REGULAR
       + get_available_slots_count sample_parked_once MEDIUM Section.REGULAR = 30"
  using capacity_invariant[OF sample_parked_once_reachable, of "\<lambda>r. sample_vehicle_std" 0]
  by simp

lemma released_eval:
  "bound_vehicles
     (case release_slot ''A1B2C3D4''
             (snd (allocate_slot 0 0 False
                \<lparr> slots = map (\<lambda>s. (slot_id s, s)) created_slots,
                  vip_passes = Map.empty, vehicles = (\<lambda>r. sample_vehicle_std) \<rparr>)) of
        Inr (res, st) \<Rightarrow> st
      | Inl e \<Rightarrow> snd (allocate_slot 0 0 False
                \<lparr> slots = map (\<lambda>s. (slot_id s, s)) created_slots,
                  vip_passes = Map.empty, vehicles = (\<lambda>r. sample_vehicle_std) \<rparr>)) = []"
  by code_simp

lemma released_found:
  "fst (case release_slot ''A1B2C3D4''
             (snd (allocate_slot 0 0 False
                \<lparr> slots = map (\<lambda>s. (slot_id s, s)) created_slots,
                  vip_passes = Map.empty, vehicles = (\<lambda>r. sample_vehicle_std) \<rparr>)) of
        Inr (res, st) \<Rightarrow> (map_option fst res, True)
      | Inl e \<Rightarrow> (None, False)) = Some ''R1M01''"
  by code_simp

lemma sample_released_free: "bound_vehicles sample_released = []"
  unfolding sample_released_def sample_parked_once_def init_explicit
  by (rule released_eval)

lemma sample_release_found:
  "\<exists>s st'. release_slot ''A1B2C3D4'' sample_parked_once = Inr (Some (''R1M01'', s), st')"
proof -
  have "fst (case release_slot ''A1B2C3D4'' sample_parked_once of
        Inr (res, st) \<Rightarrow> (map_option fst res, True)
      | Inl e \<Rightarrow> (None, False)) = Some ''R1M01''"
    unfolding sample_parked_once_def init_explicit by (rule released_found)
  then show ?thesis
    by (auto split: sum.splits)
qed

lemma sample_released_reachable: "reachable sample_released"
proof -
  from sample_release_found obtain s st' where
    r: "release_slot ''A1B2C3D4'' sample_parked_once = Inr (Some (''R1M01'', s), st')"
    by metis
  then have "sample_released = st'" by (simp add: sample_released_def)
  with reachable_step[OF sample_parked_once_reachable step_release[OF r]] show ?thesis by simp
qed

text \<open>
  C9. In a reachable state, for a ticket that no occupied slot is bound to (as after the
  release of its slot), \<open>release_slot\<close> returns nothing and leaves the whole state, slots,
  vehicles and pass registry, as it was.
\<close>

theorem release_unknown_ticket:
  assumes "reachable st"
    and "\<forall>(k, s) \<in> set (slots st).
           is_occupied s \<longrightarrow> (\<forall>r. vehicle s = Some r \<longrightarrow> ticket_id (vehicles st r) \<noteq> t)"
  shows "release_slot t st = Inr (None, st)"
proof (rule release_slot_unbound, intro ballI, clarify)
  fix k s assume mem: "(k, s) \<in> set (slots st)" and occ: "is_occupied s"
  from reachable_layout[OF assms(1)] have "bound_ok st" by simp
  with mem occ obtain r where r: "vehicle s = Some r" by (auto simp: bound_ok_def)
  with assms(2) mem occ have "ticket_id (vehicles st r) \<noteq> t" by auto
  with r show "\<exists>r. vehicle s = Some r \<and> ticket_id (vehicles st r) \<noteq> t" by simp
qed

theorem release_unknown_ticket_witness:
  "(\<exists>s. release_slot ''A1B2C3D4'' sample_parked_once = Inr (Some (''R1M01'', s), sample_released))
   \<and> release_slot ''A1B2C3D4'' sample_released = Inr (None, sample_released)"
proof -
  from sample_release_found obtain s st' where
    r: "release_slot ''A1B2C3D4'' sample_parked_once = Inr (Some (''R1M01'', s), st')"
    by metis
  then have eq: "sample_released = st'" by (simp add: sample_released_def)
  have free: "\<forall>(k, s) \<in> set (slots sample_released). \<not> is_occupied s"
    using sample_released_free by (auto simp: bound_vehicles_def filter_empty_conv)
  have "release_slot ''A1B2C3D4'' sample_released = Inr (None, sample_released)"
  proof (rule release_unknown_ticket[OF sample_released_reachable])
    from free show "\<forall>(k, s) \<in> set (slots sample_released).
           is_occupied s \<longrightarrow> (\<forall>r. vehicle s = Some r \<longrightarrow>
             ticket_id (vehicles sample_released r) \<noteq> ''A1B2C3D4'')"
      by auto
  qed
  moreover from r eq have "\<exists>s. release_slot ''A1B2C3D4'' sample_parked_once
      = Inr (Some (''R1M01'', s), sample_released)" by simp
  ultimately show ?thesis by simp
qed

section \<open>Exclusive binding\<close>

lemma twice_eval:
  "bound_vehicles (snd (allocate_slot 1 0 False (snd (allocate_slot 0 0 False
      \<lparr> slots = map (\<lambda>s. (slot_id s, s)) created_slots,
        vip_passes = Map.empty, vehicles = (\<lambda>r. sample_vehicle_std) \<rparr>))))
    = [Some 0, Some 0]"
  by code_simp

lemma sample_parked_twice_reachable: "reachable_ar sample_parked_twice"
proof -
  let ?S0 = "ParkingLot_init (\<lambda>r. sample_vehicle_std)"
  have 1: "allocate_slot 0 0 False ?S0 = (fst (allocate_slot 0 0 False ?S0), sample_parked_once)"
    by (simp add: sample_parked_once_def)
  have 2: "allocate_slot 1 0 False sample_parked_once
      = (fst (allocate_slot 1 0 False sample_parked_once), sample_parked_twice)"
    by (simp add: sample_parked_twice_def)
  from ar_allocate[OF ar_allocate[OF ar_init 1] 2] show ?thesis .
qed

text \<open>
  C3, as the specification states it: under any sequence of \<open>allocate_slot\<close> and
  \<open>release_slot\<close> calls no vehicle would be bound to two occupied slots. Two
  \<open>allocate_slot\<close> calls for the same vehicle on a new lot bind it to two slots.
\<close>

theorem same_vehicle_twice_counterexample:
  "reachable_ar sample_parked_twice
   \<and> bound_vehicles sample_parked_twice = [Some 0, Some 0]
   \<and> \<not> distinct (bound_vehicles sample_parked_twice)"
proof -
  have "bound_vehicles sample_parked_twice = [Some 0, Some 0]"
    unfolding sample_parked_twice_def sample_parked_once_def init_explicit
    by (rule twice_eval)
  with sample_parked_twice_reachable show ?thesis by simp
qed

lemma distinct_bound_iff:
  assumes "distinct (map fst (slots st))"
  shows "distinct (bound_vehicles st) \<longleftrightarrow> exclusive st"
proof -
  let ?P = "\<lambda>(k, s). is_occupied s" and ?f = "\<lambda>(k, s). vehicle s"
  from assms have "distinct (slots st)" by (simp add: distinct_map)
  then have d: "distinct (filter ?P (slots st))" by simp
  have "inj_on ?f (set (filter ?P (slots st))) \<longleftrightarrow> exclusive st"
  proof
    assume inj: "inj_on ?f (set (filter ?P (slots st)))"
    show "exclusive st"
      unfolding exclusive_def
    proof (intro ballI, clarify)
      fix k1 s1 k2 s2
      assume "(k1, s1) \<in> set (slots st)" "(k2, s2) \<in> set (slots st)"
        "is_occupied s1" "is_occupied s2" "vehicle s1 = vehicle s2"
      then have "(k1, s1) \<in> set (filter ?P (slots st))" "(k2, s2) \<in> set (filter ?P (slots st))"
        "?f (k1, s1) = ?f (k2, s2)" by simp_all
      from inj_onD[OF inj this(3,1,2)] show "k1 = k2" by simp
    qed
  next
    assume ex: "exclusive st"
    show "inj_on ?f (set (filter ?P (slots st)))"
    proof (rule inj_onI)
      fix x y
      assume x: "x \<in> set (filter ?P (slots st))" and y: "y \<in> set (filter ?P (slots st))"
        and eq: "?f x = ?f y"
      obtain k1 s1 where x': "x = (k1, s1)" by (cases x)
      obtain k2 s2 where y': "y = (k2, s2)" by (cases y)
      from x y eq x' y' have m: "(k1, s1) \<in> set (slots st)" "(k2, s2) \<in> set (slots st)"
        and o: "is_occupied s1" "is_occupied s2" "vehicle s1 = vehicle s2" by simp_all
      from ex m o have "k1 = k2" unfolding exclusive_def by fast
      with m same_key_same_slot[OF assms] have "s1 = s2" by fastforce
      with \<open>k1 = k2\<close> x' y' show "x = y" by simp
    qed
  qed
  with d show ?thesis by (simp add: bound_vehicles_def distinct_map)
qed

lemma parked_iff:
  "parked st r \<longleftrightarrow> (\<exists>(k, s) \<in> set (slots st). is_occupied s \<and> vehicle s = Some r)"
  by (simp add: parked_def list_ex_iff)

lemma reachable_unparked_reachable: "reachable_unparked st \<Longrightarrow> reachable st"
proof (induction rule: reachable_unparked.induct)
  case (un_init h)
  show ?case by (rule reachable_init)
next
  case (un_allocate st r now is_ev res st')
  from reachable_step[OF un_allocate.IH step_allocate[OF un_allocate.hyps(3)]] show ?case .
next
  case (un_release st t res st')
  from reachable_step[OF un_release.IH step_release[OF un_release.hyps(2)]] show ?case .
qed

lemma exclusive_after_bind:
  assumes ex: "exclusive st" and np: "\<not> parked st r"
  shows "exclusive (st\<lparr>slots := put_slot k
           (s\<lparr>vehicle := Some r, slot_allocation_time := Some now, is_occupied := True\<rparr>) (slots st),
         vehicles := h\<rparr>)"
  unfolding exclusive_def
proof (intro ballI, clarify)
  let ?s' = "s\<lparr>vehicle := Some r, slot_allocation_time := Some now, is_occupied := True\<rparr>"
  fix k1 s1 k2 s2
  assume m1: "(k1, s1) \<in> set (slots (st\<lparr>slots := put_slot k ?s' (slots st), vehicles := h\<rparr>))"
    and m2: "(k2, s2) \<in> set (slots (st\<lparr>slots := put_slot k ?s' (slots st), vehicles := h\<rparr>))"
    and o1: "is_occupied s1" and o2: "is_occupied s2" and eq: "vehicle s1 = vehicle s2"
  from m1 have c1: "(k1 \<noteq> k \<and> (k1, s1) \<in> set (slots st)) \<or> (k1 = k \<and> s1 = ?s')"
    by (auto simp: in_put_slot)
  from m2 have c2: "(k2 \<noteq> k \<and> (k2, s2) \<in> set (slots st)) \<or> (k2 = k \<and> s2 = ?s')"
    by (auto simp: in_put_slot)
  have old: "vehicle s0 \<noteq> Some r" if "(k0, s0) \<in> set (slots st)" "is_occupied s0" for k0 s0
    using np that unfolding parked_iff by fast
  from c1 show "k1 = k2"
  proof
    assume a1: "k1 \<noteq> k \<and> (k1, s1) \<in> set (slots st)"
    from c2 show ?thesis
    proof
      assume a2: "k2 \<noteq> k \<and> (k2, s2) \<in> set (slots st)"
      with a1 o1 o2 eq ex show ?thesis unfolding exclusive_def by fast
    next
      assume a2: "k2 = k \<and> s2 = ?s'"
      with eq have "vehicle s1 = Some r" by simp
      with old[of k1 s1] a1 o1 show ?thesis by simp
    qed
  next
    assume a1: "k1 = k \<and> s1 = ?s'"
    from c2 show ?thesis
    proof
      assume a2: "k2 \<noteq> k \<and> (k2, s2) \<in> set (slots st)"
      from a1 eq have "vehicle s2 = Some r" by simp
      with old[of k2 s2] a2 o2 show ?thesis by simp
    next
      assume "k2 = k \<and> s2 = ?s'"
      with a1 show ?thesis by simp
    qed
  qed
qed

lemma exclusive_after_free:
  assumes ex: "exclusive st"
  shows "exclusive (st\<lparr>slots := put_slot k (s\<lparr>vehicle := None, is_occupied := False\<rparr>) (slots st)\<rparr>)"
  unfolding exclusive_def
proof (intro ballI, clarify)
  let ?s' = "s\<lparr>vehicle := None, is_occupied := False\<rparr>"
  fix k1 s1 k2 s2
  assume m1: "(k1, s1) \<in> set (slots (st\<lparr>slots := put_slot k ?s' (slots st)\<rparr>))"
    and m2: "(k2, s2) \<in> set (slots (st\<lparr>slots := put_slot k ?s' (slots st)\<rparr>))"
    and o1: "is_occupied s1" and o2: "is_occupied s2" and eq: "vehicle s1 = vehicle s2"
  from m1 o1 have c1: "(k1, s1) \<in> set (slots st)"
    by (auto simp: in_put_slot)
  from m2 o2 have c2: "(k2, s2) \<in> set (slots st)"
    by (auto simp: in_put_slot)
  from c1 c2 o1 o2 eq ex show "k1 = k2" unfolding exclusive_def by fast
qed

lemma init_exclusive: "exclusive (ParkingLot_init h)"
  using created_free by (auto simp: exclusive_def init_slots)

lemma reachable_unparked_exclusive: "reachable_unparked st \<Longrightarrow> exclusive st"
proof (induction rule: reachable_unparked.induct)
  case (un_init h)
  show ?case by (rule init_exclusive)
next
  case (un_allocate st r now is_ev res st')
  from un_allocate.hyps(3) show ?case
  proof (cases rule: allocate_slot_effect)
    case none
    with un_allocate.IH show ?thesis by simp
  next
    case (bound k s)
    show ?thesis unfolding bound(4)
      by (rule exclusive_after_bind[OF un_allocate.IH un_allocate.hyps(2)])
  qed
next
  case (un_release st t res st')
  from un_release.hyps(2) show ?case
  proof (cases rule: release_slot_effect)
    case none
    with un_release.IH show ?thesis by simp
  next
    case (freed k s r)
    show ?thesis unfolding freed(6)
      by (rule exclusive_after_free[OF un_release.IH])
  qed
qed

lemma init_not_parked: "\<not> parked (ParkingLot_init h) r"
  using created_free by (auto simp: parked_iff init_slots)

text \<open>
  C3, amended. In every state reached by \<open>allocate_slot\<close> and \<open>release_slot\<close> calls in
  which \<open>allocate_slot\<close> is only called with a vehicle that no occupied slot holds, the
  occupied slots hold pairwise different vehicles, and each of them holds one.
\<close>

theorem one_vehicle_one_slot:
  assumes "reachable_unparked st"
  shows "distinct (bound_vehicles st) \<and> None \<notin> set (bound_vehicles st)"
proof -
  from reachable_layout[OF reachable_unparked_reachable[OF assms]]
  have lay: "layout st = map (\<lambda>s. slot_attrs (slot_id s, s)) created_slots" and ok: "bound_ok st"
    by simp_all
  have "distinct (map fst (layout st))"
    using init_keys_distinct[of "vehicles st"] by (simp add: lay init_layout)
  then have "distinct (map fst (slots st))" by (simp add: map_fst_layout)
  from distinct_bound_iff[OF this] reachable_unparked_exclusive[OF assms]
  have "distinct (bound_vehicles st)" by simp
  moreover from ok have "None \<notin> set (bound_vehicles st)"
    by (auto simp: bound_ok_def bound_vehicles_def)
  ultimately show ?thesis by simp
qed

theorem one_vehicle_one_slot_witness:
  "distinct (bound_vehicles sample_parked_once) \<and> None \<notin> set (bound_vehicles sample_parked_once)"
proof -
  let ?S0 = "ParkingLot_init (\<lambda>r. sample_vehicle_std)"
  have "allocate_slot 0 0 False ?S0 = (fst (allocate_slot 0 0 False ?S0), sample_parked_once)"
    by (simp add: sample_parked_once_def)
  from un_allocate[OF un_init init_not_parked this]
  have "reachable_unparked sample_parked_once" .
  then show ?thesis by (rule one_vehicle_one_slot)
qed

section \<open>The pass registry\<close>

lemma step_vip_passes:
  assumes "step st st'"
  shows "vip_passes st' = vip_passes st"
  using assms
proof (cases rule: step.cases)
  case (step_allocate now r is_ev res)
  from this(1) show ?thesis
    by (cases rule: allocate_slot_effect) simp_all
next
  case (step_release t res)
  from this(1) show ?thesis
    by (cases rule: release_slot_effect) simp_all
next
  case (step_exit now t out)
  from this(1) show ?thesis
  proof (cases rule: process_vehicle_exit_effect)
    case same
    then show ?thesis by simp
  next
    case (released h res)
    then show ?thesis
      by (cases rule: release_slot_effect) simp_all
  qed
next
  case (step_validate now r is_ev ans)
  from validate_vehicle_entry_effect[OF this(1)] show ?thesis by simp
next
  case (step_caller h)
  then show ?thesis by simp
qed

lemma allocate_slot_keeps_identity:
  assumes "allocate_slot now r is_ev st = (res, st')"
  shows "customer_type (vehicles st' r) = customer_type (vehicles st r)
       \<and> license_plate (vehicles st' r) = license_plate (vehicles st r)
       \<and> vip_passes st' = vip_passes st"
  using assms by (cases rule: allocate_slot_effect) simp_all

lemma dom_refresh_pass: "dom reg \<subseteq> dom (refresh_pass now ident reg)"
  by (auto simp: refresh_pass_def)

lemma refresh_pass_inactive:
  "\<not> registry_active now reg ident \<Longrightarrow>
     refresh_pass now ident reg ident = Some (now + timedelta_days 30)"
  by (simp add: refresh_pass_def membership_duration_def)

lemma member_found:
  "find_slot sample_member_lot SMALL CustomerType.VIP False
     = Some (''V1S01'', Slot_init ''V1S01'' 1 Section.VIP SMALL)"
  by (simp add: find_slot_def preferred_sections_def find_slot_in_section_def sample_member_lot_def
      sample_lot_def Slot_init_def)

lemma member_vehicle:
  "vehicle_type (vehicles sample_member_lot 0) = SMALL"
  "customer_type (vehicles sample_member_lot 0) = CustomerType.VIP"
  "license_plate (vehicles sample_member_lot 0) = ''KA05MM0001''"
  by (simp_all add: sample_member_lot_def sample_vehicle_member_def Vehicle_init_def)

lemma member_allocated:
  "\<exists>x st'. allocate_with_pass (timedelta_hours 5) 0 False sample_member_lot = (Some x, st')"
proof -
  obtain res st1 where a: "allocate_slot (timedelta_hours 5) 0 False sample_member_lot = (res, st1)"
    by (cases "allocate_slot (timedelta_hours 5) 0 False sample_member_lot")
  then have "res \<noteq> None"
    by (auto simp: allocate_slot_def member_vehicle member_found allocate_def Slot_init_def)
  then obtain y where "res = Some y" by auto
  with a show ?thesis by (simp add: allocate_with_pass_def)
qed

text \<open>
  C6. After a successful Member-tier allocation for an identifier with no pass or an
  expired one, the registry maps the identifier to now plus 30 days; the allocation
  removes no entry; and no operation of the module changes the registry at all.
\<close>

theorem pass_registered_on_member_allocation:
  "(allocate_with_pass now r is_ev st = (Some x, st')
      \<and> customer_type (vehicles st r) = CustomerType.VIP
      \<and> \<not> registry_active now (vip_passes st) (license_plate (vehicles st r))
     \<longrightarrow> vip_passes st' (license_plate (vehicles st r)) = Some (now + timedelta_days 30))
   \<and> dom (vip_passes st) \<subseteq> dom (vip_passes (snd (allocate_with_pass now r is_ev st)))
   \<and> (step st st'' \<longrightarrow> vip_passes st'' = vip_passes st)"
proof (intro conjI impI)
  obtain res st1 where a: "allocate_slot now r is_ev st = (res, st1)"
    by (cases "allocate_slot now r is_ev st")
  note keep = allocate_slot_keeps_identity[OF a]
  show "dom (vip_passes st) \<subseteq> dom (vip_passes (snd (allocate_with_pass now r is_ev st)))"
  proof (cases res)
    case None
    with a keep show ?thesis by (simp add: allocate_with_pass_def)
  next
    case (Some y)
    with a keep dom_refresh_pass[of "vip_passes st" now "license_plate (vehicles st r)"]
    show ?thesis by (simp add: allocate_with_pass_def)
  qed
  assume h: "allocate_with_pass now r is_ev st = (Some x, st')
      \<and> customer_type (vehicles st r) = CustomerType.VIP
      \<and> \<not> registry_active now (vip_passes st) (license_plate (vehicles st r))"
  then have w: "allocate_with_pass now r is_ev st = (Some x, st')"
    and vip: "customer_type (vehicles st r) = CustomerType.VIP"
    and na: "\<not> registry_active now (vip_passes st) (license_plate (vehicles st r))"
    by simp_all
  from keep have k1: "customer_type (vehicles st1 r) = customer_type (vehicles st r)"
    and k2: "license_plate (vehicles st1 r) = license_plate (vehicles st r)"
    and k3: "vip_passes st1 = vip_passes st"
    by simp_all
  show "vip_passes st' (license_plate (vehicles st r)) = Some (now + timedelta_days 30)"
  proof (cases res)
    case None
    with a w show ?thesis by (simp add: allocate_with_pass_def)
  next
    case (Some y)
    with a w have "st' = (if customer_type (vehicles st1 r) = CustomerType.VIP
        then st1\<lparr>vip_passes := refresh_pass now (license_plate (vehicles st1 r)) (vip_passes st1)\<rparr>
        else st1)"
      by (simp add: allocate_with_pass_def)
    then have "vip_passes st' = refresh_pass now (license_plate (vehicles st r)) (vip_passes st)"
      by (simp add: k1 k2 k3 vip)
    with refresh_pass_inactive[OF na] show ?thesis by simp
  qed
next
  assume "step st st''"
  then show "vip_passes st'' = vip_passes st" by (rule step_vip_passes)
qed

theorem pass_registered_on_member_allocation_witness:
  "vip_passes (snd (allocate_with_pass (timedelta_hours 5) 0 False sample_member_lot)) ''KA05MM0001''
     = Some (timedelta_hours 5 + timedelta_days 30)
   \<and> fst (allocate_with_pass (timedelta_hours 5) 0 False sample_member_lot) \<noteq> None"
proof -
  from member_allocated obtain x st' where
    a: "allocate_with_pass (timedelta_hours 5) 0 False sample_member_lot = (Some x, st')"
    by metis
  have na: "\<not> registry_active (timedelta_hours 5) (vip_passes sample_member_lot)
              (license_plate (vehicles sample_member_lot 0))"
    by (simp add: registry_active_def sample_member_lot_def sample_lot_def)
  from pass_registered_on_member_allocation[of "timedelta_hours 5" 0 False sample_member_lot x st']
    a na member_vehicle
  have "vip_passes st' ''KA05MM0001'' = Some (timedelta_hours 5 + timedelta_days 30)"
    by simp
  with a show ?thesis by simp
qed

end
